theory Spec2Isabelle
  imports Complex_Main "HOL-Library.Sublist"
begin

section \<open>Data model\<close>

text \<open>
  The travel planner keeps one live trip (itinerary, budget items, contacts, display
  currency, exchange rates and the four form fields) and a list of saved trips.
  JavaScript arrays and objects are reference values: \<^verbatim>\<open>handleSaveTrip\<close> stores the
  very arrays the live state points to, and \<^verbatim>\<open>handleLoadTrip\<close> hands them back. The
  model therefore keeps every array and object that the live state and a saved trip can
  share in an explicit store, and the state holds addresses into it.

  Identifiers, day numbers and clock readings are natural numbers. Amounts and rates are
  only stored and handed on, never computed with; they are rationals. Page coordinates
  are computed in JavaScript's double-precision arithmetic, which the section on the PDF
  export models by rounding after each operation.
\<close>

type_synonym addr = nat

datatype Currency = USD | EUR | PLN | CHF

text \<open>
  Modelled from the spec: the declarations of \<^verbatim>\<open>./types\<close> (Activity, Day, BudgetItem,
  Contact, SavedTrip) are not part of the sources at hand. The records below carry the
  fields that section 3 of the specification lists; a Day refers to its array of
  activities by address.
\<close>

record Activity =
  activity_id :: string
  time :: string
  title :: string
  description :: string

record Day =
  day :: nat
  activities :: addr

record BudgetItem =
  budget_id :: nat
  label :: string
  amount :: rat
  category :: string

record Contact =
  contact_id :: nat
  contact_name :: string
  info :: string

type_synonym ExchangeRates = "(Currency \<times> rat) list"

datatype obj =
    ActivityObj Activity
  | DayObj Day
  | BudgetItemObj BudgetItem
  | ContactObj Contact
  | RatesObj ExchangeRates
  | Arr "addr list"

record FormState =
  form_destination :: string
  form_startDate :: string
  form_endDate :: string
  form_interests :: string

record TripData =
  data_itinerary :: addr
  data_budgetItems :: addr
  data_contacts :: addr
  data_currency :: Currency
  data_exchangeRates :: addr

record SavedTrip =
  trip_id :: nat
  trip_name :: string
  formState :: FormState
  trip_data :: TripData

text \<open>
  A PDF document under construction: the number of pages, the images placed so far (page,
  position and size, in millimetres), the footer texts, and the cursor \<^verbatim>\<open>yPos\<close> that
  \<^verbatim>\<open>generatePdf\<close> keeps beside the document. Images are added to the last page.
\<close>

record PdfImage =
  img_page :: nat
  img_x :: rat
  img_y :: rat
  img_w :: rat
  img_h :: rat

record PdfState =
  pages :: nat
  images :: "PdfImage list"
  texts :: "(nat \<times> string) list"
  yPos :: rat

text \<open>
  The component state of \<^verbatim>\<open>App\<close> (the \<^verbatim>\<open>useState\<close> variables), the object store, and
  a log of what the handlers show to the user or send to the document: \<^verbatim>\<open>alert\<close>
  messages, dispatched events and downloaded files.
\<close>

record App =
  destination :: string
  startDate :: string
  endDate :: string
  interests :: string
  isLoading :: bool
  error :: "string option"
  isGeneratingPdf :: bool
  itinerary :: "addr option"
  budgetItems :: addr
  contacts :: addr
  currency :: Currency
  exchangeRates :: addr
  savedTrips :: "SavedTrip list"
  heap :: "obj list"
  alerts :: "string list"
  events :: "string list"
  downloads :: "PdfState list"

section \<open>The object store\<close>

text \<open>
  An address is an index into the store. Creating an object appends it, so an address
  that is in use is never handed out again; no handler of \<^verbatim>\<open>App.tsx\<close> writes to an
  object after creating it.
\<close>

definition lookup :: "obj list \<Rightarrow> addr \<Rightarrow> obj option" where
  "lookup h a = (if a < length h then Some (h ! a) else None)"

definition alloc :: "obj list \<Rightarrow> obj \<Rightarrow> addr \<times> obj list" where
  "alloc h ob = (length h, h @ [ob])"

definition readArr :: "obj list \<Rightarrow> addr \<Rightarrow> addr list option" where
  "readArr h a = (case lookup h a of Some (Arr xs) \<Rightarrow> Some xs | _ \<Rightarrow> None)"

definition readActivity :: "obj list \<Rightarrow> addr \<Rightarrow> Activity option" where
  "readActivity h a = (case lookup h a of Some (ActivityObj x) \<Rightarrow> Some x | _ \<Rightarrow> None)"

definition readDay :: "obj list \<Rightarrow> addr \<Rightarrow> Day option" where
  "readDay h a = (case lookup h a of Some (DayObj x) \<Rightarrow> Some x | _ \<Rightarrow> None)"

definition readBudgetItem :: "obj list \<Rightarrow> addr \<Rightarrow> BudgetItem option" where
  "readBudgetItem h a = (case lookup h a of Some (BudgetItemObj x) \<Rightarrow> Some x | _ \<Rightarrow> None)"

definition readContact :: "obj list \<Rightarrow> addr \<Rightarrow> Contact option" where
  "readContact h a = (case lookup h a of Some (ContactObj x) \<Rightarrow> Some x | _ \<Rightarrow> None)"

definition readRates :: "obj list \<Rightarrow> addr \<Rightarrow> ExchangeRates option" where
  "readRates h a = (case lookup h a of Some (RatesObj m) \<Rightarrow> Some m | _ \<Rightarrow> None)"

fun mapM :: "('a \<Rightarrow> 'b option) \<Rightarrow> 'a list \<Rightarrow> 'b list option" where
  "mapM f [] = Some []"
| "mapM f (x # xs) =
     (case f x of None \<Rightarrow> None
      | Some y \<Rightarrow> (case mapM f xs of None \<Rightarrow> None | Some ys \<Rightarrow> Some (y # ys)))"

text \<open>
  The value reached from an address: what a deep comparison (or \<^verbatim>\<open>JSON.stringify\<close>)
  of the object sees. \<open>None\<close> means that some reference on the way does not lead to an
  object of the expected kind, which the TypeScript types rule out.
\<close>

type_synonym DayValue = "nat \<times> Activity list"

definition dayValue :: "obj list \<Rightarrow> addr \<Rightarrow> DayValue option" where
  "dayValue h a =
     (case readDay h a of None \<Rightarrow> None
      | Some d \<Rightarrow>
          (case readArr h (activities d) of None \<Rightarrow> None
           | Some as \<Rightarrow>
               (case mapM (readActivity h) as of None \<Rightarrow> None
                | Some acts \<Rightarrow> Some (day d, acts))))"

definition itineraryValue :: "obj list \<Rightarrow> addr \<Rightarrow> DayValue list option" where
  "itineraryValue h a =
     (case readArr h a of None \<Rightarrow> None | Some ds \<Rightarrow> mapM (dayValue h) ds)"

definition budgetValue :: "obj list \<Rightarrow> addr \<Rightarrow> BudgetItem list option" where
  "budgetValue h a =
     (case readArr h a of None \<Rightarrow> None | Some xs \<Rightarrow> mapM (readBudgetItem h) xs)"

definition contactsValue :: "obj list \<Rightarrow> addr \<Rightarrow> Contact list option" where
  "contactsValue h a =
     (case readArr h a of None \<Rightarrow> None | Some xs \<Rightarrow> mapM (readContact h) xs)"

record DataValue =
  v_itinerary :: "DayValue list"
  v_budgetItems :: "BudgetItem list"
  v_contacts :: "Contact list"
  v_currency :: Currency
  v_exchangeRates :: ExchangeRates

definition dataValue :: "obj list \<Rightarrow> TripData \<Rightarrow> DataValue option" where
  "dataValue h d =
     (case itineraryValue h (data_itinerary d) of None \<Rightarrow> None
      | Some i \<Rightarrow>
     (case budgetValue h (data_budgetItems d) of None \<Rightarrow> None
      | Some b \<Rightarrow>
     (case contactsValue h (data_contacts d) of None \<Rightarrow> None
      | Some c \<Rightarrow>
     (case readRates h (data_exchangeRates d) of None \<Rightarrow> None
      | Some r \<Rightarrow>
          Some \<lparr>v_itinerary = i, v_budgetItems = b, v_contacts = c,
                v_currency = data_currency d, v_exchangeRates = r\<rparr>))))"

text \<open>The live aggregate, seen as the data a snapshot of it would hold.\<close>

definition liveData :: "App \<Rightarrow> TripData option" where
  "liveData s =
     (case itinerary s of None \<Rightarrow> None
      | Some i \<Rightarrow>
          Some \<lparr>data_itinerary = i, data_budgetItems = budgetItems s,
                data_contacts = contacts s, data_currency = currency s,
                data_exchangeRates = exchangeRates s\<rparr>)"

definition liveForm :: "App \<Rightarrow> FormState" where
  "liveForm s =
     \<lparr>form_destination = destination s, form_startDate = startDate s,
      form_endDate = endDate s, form_interests = interests s\<rparr>"

section \<open>Handlers of the trip state\<close>

text \<open>
  The constants of \<^verbatim>\<open>./components/constants\<close> are module-level objects that exist
  before any handler runs; their addresses are parameters.
\<close>

record Constants =
  polishedTemplate_itinerary :: addr
  defaultBudgetItems :: addr
  defaultContacts :: addr

definition digit_char :: "nat \<Rightarrow> char" where
  "digit_char n = ''0123456789'' ! n"

fun showNat :: "nat \<Rightarrow> string" where
  "showNat n =
     (if n < 10 then [digit_char n] else showNat (n div 10) @ [digit_char (n mod 10)])"

declare showNat.simps [simp del]

definition activityId :: "nat \<Rightarrow> nat \<Rightarrow> nat \<Rightarrow> string" where
  "activityId d index t =
     ''activity-'' @ showNat d @ ''-'' @ showNat index @ ''-'' @ showNat t"

text \<open>
  \<^verbatim>\<open>handleGenerate\<close>, the part that runs at once. The second component tells whether
  the 1500 ms timer was set.
\<close>

definition handleGenerate :: "App \<Rightarrow> App \<times> bool" where
  "handleGenerate s =
     (if destination s = [] \<or> startDate s = [] \<or> endDate s = [] then
        (s\<lparr>error := Some ''Please fill in all required fields.''\<rparr>, False)
      else
        (let (b, h1) = alloc (heap s) (Arr []);
             (c, h2) = alloc h1 (Arr [])
         in (s\<lparr>isLoading := True, error := None, itinerary := None,
                budgetItems := b, contacts := c, heap := h2\<rparr>, True)))"

text \<open>
  The timer's callback. \<open>clk k index\<close> is what \<^verbatim>\<open>new Date().getTime()\<close> returns when
  activity \<open>index\<close> of the \<open>k\<close>-th day of the template is copied. Every day, every
  activity and both levels of arrays are created anew; a template that cannot be read
  throws, which the \<^verbatim>\<open>catch\<close> turns into an error message.
\<close>

fun stampActivities ::
  "(nat \<Rightarrow> nat) \<Rightarrow> nat \<Rightarrow> nat \<Rightarrow> addr list \<Rightarrow> obj list \<Rightarrow> (addr list \<times> obj list) option"
where
  "stampActivities clk d index [] h = Some ([], h)"
| "stampActivities clk d index (a # as) h =
     (case readActivity h a of None \<Rightarrow> None
      | Some activity \<Rightarrow>
          (let (a', h1) =
                 alloc h (ActivityObj (activity\<lparr>activity_id := activityId d index (clk index)\<rparr>))
           in case stampActivities clk d (Suc index) as h1 of None \<Rightarrow> None
              | Some (as', h2) \<Rightarrow> Some (a' # as', h2)))"

fun stampDays ::
  "(nat \<Rightarrow> nat \<Rightarrow> nat) \<Rightarrow> nat \<Rightarrow> addr list \<Rightarrow> obj list \<Rightarrow> (addr list \<times> obj list) option"
where
  "stampDays clk k [] h = Some ([], h)"
| "stampDays clk k (a # ds) h =
     (case readDay h a of None \<Rightarrow> None
      | Some d \<Rightarrow>
     (case readArr h (activities d) of None \<Rightarrow> None
      | Some as \<Rightarrow>
     (case stampActivities (clk k) (day d) 0 as h of None \<Rightarrow> None
      | Some (as', h1) \<Rightarrow>
          (let (arr, h2) = alloc h1 (Arr as');
               (a', h3) = alloc h2 (DayObj (d\<lparr>activities := arr\<rparr>))
           in case stampDays clk (Suc k) ds h3 of None \<Rightarrow> None
              | Some (ds', h4) \<Rightarrow> Some (a' # ds', h4)))))"

definition planWithIds ::
  "Constants \<Rightarrow> (nat \<Rightarrow> nat \<Rightarrow> nat) \<Rightarrow> obj list \<Rightarrow> (addr \<times> obj list) option"
where
  "planWithIds K clk h =
     (case readArr h (polishedTemplate_itinerary K) of None \<Rightarrow> None
      | Some ds \<Rightarrow>
          (case stampDays clk 0 ds h of None \<Rightarrow> None
           | Some (ds', h1) \<Rightarrow> Some (alloc h1 (Arr ds'))))"

definition handleGenerateTimeout :: "Constants \<Rightarrow> (nat \<Rightarrow> nat \<Rightarrow> nat) \<Rightarrow> App \<Rightarrow> App" where
  "handleGenerateTimeout K clk s =
     (case planWithIds K clk (heap s) of
        None \<Rightarrow>
          s\<lparr>error := Some ''An unexpected error occurred while generating the plan from the template.'',
            isLoading := False\<rparr>
      | Some (plan, h1) \<Rightarrow>
          s\<lparr>itinerary := Some plan, budgetItems := defaultBudgetItems K,
            contacts := defaultContacts K, heap := h1, isLoading := False\<rparr>)"

text \<open>\<^verbatim>\<open>handleClearItinerary\<close>; \<open>confirm\<close> is the answer to \<^verbatim>\<open>window.confirm\<close>.\<close>

definition handleClearItinerary :: "bool \<Rightarrow> App \<Rightarrow> App" where
  "handleClearItinerary confirm s =
     (if confirm then
        (let (b, h1) = alloc (heap s) (Arr []);
             (c, h2) = alloc h1 (Arr [])
         in s\<lparr>itinerary := None, budgetItems := b, contacts := c, heap := h2\<rparr>)
      else s)"

text \<open>
  \<^verbatim>\<open>handleSaveTrip\<close>. \<open>now\<close> is the reading of \<^verbatim>\<open>Date.now()\<close>; \<open>prompt\<close> maps the
  default text offered by the dialog to the user's answer, \<open>None\<close> when the dialog is
  cancelled. The snapshot holds the addresses the live state holds: nothing is copied.
\<close>

definition noItineraryMessage :: string where
  "noItineraryMessage = ''There's no itinerary to save.''"

definition savedMessage :: "string \<Rightarrow> string" where
  "savedMessage tripName = ''Trip '' @ [CHR 0x27] @ tripName @ [CHR 0x27] @ '' has been saved.''"

definition handleSaveTrip :: "nat \<Rightarrow> (string \<Rightarrow> string option) \<Rightarrow> App \<Rightarrow> App" where
  "handleSaveTrip now prompt s =
     (case itinerary s of
        None \<Rightarrow> s\<lparr>alerts := alerts s @ [noItineraryMessage]\<rparr>
      | Some i \<Rightarrow>
          if readArr (heap s) i = Some [] then s\<lparr>alerts := alerts s @ [noItineraryMessage]\<rparr>
          else
            (case prompt (destination s @ '' | '' @ startDate s @ '' to '' @ endDate s) of
               None \<Rightarrow> s
             | Some tripName \<Rightarrow>
                 if tripName = [] then s
                 else
                   (let newTrip =
                          \<lparr>trip_id = now, trip_name = tripName, formState = liveForm s,
                           trip_data =
                             \<lparr>data_itinerary = i, data_budgetItems = budgetItems s,
                              data_contacts = contacts s, data_currency = currency s,
                              data_exchangeRates = exchangeRates s\<rparr>\<rparr>
                    in s\<lparr>savedTrips := savedTrips s @ [newTrip],
                         alerts := alerts s @ [savedMessage tripName]\<rparr>)))"

text \<open>
  \<^verbatim>\<open>handleLoadTrip\<close>, \<^verbatim>\<open>handleDeleteTrip\<close> and \<^verbatim>\<open>handleUpdateTripName\<close>. \<^verbatim>\<open>find\<close> returns
  the first trip with the id. The scrolling of the window after a load is not part of the
  state.
\<close>

definition handleLoadTrip :: "bool \<Rightarrow> nat \<Rightarrow> App \<Rightarrow> App" where
  "handleLoadTrip confirm tripId s =
     (if confirm then
        (case find (\<lambda>t. trip_id t = tripId) (savedTrips s) of
           None \<Rightarrow> s
         | Some tripToLoad \<Rightarrow>
             s\<lparr>itinerary := Some (data_itinerary (trip_data tripToLoad)),
               budgetItems := data_budgetItems (trip_data tripToLoad),
               contacts := data_contacts (trip_data tripToLoad),
               currency := data_currency (trip_data tripToLoad),
               exchangeRates := data_exchangeRates (trip_data tripToLoad),
               destination := form_destination (formState tripToLoad),
               startDate := form_startDate (formState tripToLoad),
               endDate := form_endDate (formState tripToLoad),
               interests := form_interests (formState tripToLoad)\<rparr>)
      else s)"

definition handleDeleteTrip :: "bool \<Rightarrow> nat \<Rightarrow> App \<Rightarrow> App" where
  "handleDeleteTrip confirm tripId s =
     (if confirm then s\<lparr>savedTrips := filter (\<lambda>t. trip_id t \<noteq> tripId) (savedTrips s)\<rparr>
      else s)"

definition handleUpdateTripName :: "nat \<Rightarrow> string \<Rightarrow> App \<Rightarrow> App" where
  "handleUpdateTripName tripId newName s =
     s\<lparr>savedTrips :=
         map (\<lambda>trip. if trip_id trip = tripId then trip\<lparr>trip_name := newName\<rparr> else trip)
           (savedTrips s)\<rparr>"

text \<open>
  The budget and contact handlers build a new array each time (\<^verbatim>\<open>[...prev, x]\<close>,
  \<^verbatim>\<open>prev.filter\<close>). The argument of an add handler comes without an id; it is given as a
  record whose id is overwritten, as the spread \<^verbatim>\<open>{...item, id: Date.now()}\<close> does. Where
  the current array cannot be read the state is left as it is; the TypeScript types
  exclude that case.
\<close>

definition handleAddBudgetItem :: "nat \<Rightarrow> BudgetItem \<Rightarrow> App \<Rightarrow> App" where
  "handleAddBudgetItem now item s =
     (case readArr (heap s) (budgetItems s) of
        None \<Rightarrow> s
      | Some prev \<Rightarrow>
          (let (newItem, h1) = alloc (heap s) (BudgetItemObj (item\<lparr>budget_id := now\<rparr>));
               (arr, h2) = alloc h1 (Arr (prev @ [newItem]))
           in s\<lparr>budgetItems := arr, heap := h2\<rparr>))"

definition handleDeleteBudgetItem :: "nat \<Rightarrow> App \<Rightarrow> App" where
  "handleDeleteBudgetItem i s =
     (case readArr (heap s) (budgetItems s) of
        None \<Rightarrow> s
      | Some prev \<Rightarrow>
          (case mapM (readBudgetItem (heap s)) prev of
             None \<Rightarrow> s
           | Some items \<Rightarrow>
               (let (arr, h1) =
                      alloc (heap s)
                        (Arr (map fst (filter (\<lambda>(a, item). budget_id item \<noteq> i) (zip prev items))))
                in s\<lparr>budgetItems := arr, heap := h1\<rparr>)))"

definition handleAddContact :: "nat \<Rightarrow> Contact \<Rightarrow> App \<Rightarrow> App" where
  "handleAddContact now contact s =
     (case readArr (heap s) (contacts s) of
        None \<Rightarrow> s
      | Some prev \<Rightarrow>
          (let (newContact, h1) = alloc (heap s) (ContactObj (contact\<lparr>contact_id := now\<rparr>));
               (arr, h2) = alloc h1 (Arr (prev @ [newContact]))
           in s\<lparr>contacts := arr, heap := h2\<rparr>))"

definition handleDeleteContact :: "nat \<Rightarrow> App \<Rightarrow> App" where
  "handleDeleteContact i s =
     (case readArr (heap s) (contacts s) of
        None \<Rightarrow> s
      | Some prev \<Rightarrow>
          (case mapM (readContact (heap s)) prev of
             None \<Rightarrow> s
           | Some cs \<Rightarrow>
               (let (arr, h1) =
                      alloc (heap s)
                        (Arr (map fst (filter (\<lambda>(a, c). contact_id c \<noteq> i) (zip prev cs))))
                in s\<lparr>contacts := arr, heap := h1\<rparr>)))"

text \<open>
  The state setters that \<^verbatim>\<open>App\<close> passes to its child components as they are
  (\<^verbatim>\<open>onCurrencyChange\<close>, \<^verbatim>\<open>onRatesChange\<close>, \<^verbatim>\<open>setItinerary\<close>). A setter rebinds the
  state variable to the value it is given and checks nothing.
\<close>

definition setCurrency :: "Currency \<Rightarrow> App \<Rightarrow> App" where
  "setCurrency c s = s\<lparr>currency := c\<rparr>"

definition setExchangeRates :: "addr \<Rightarrow> App \<Rightarrow> App" where
  "setExchangeRates r s = s\<lparr>exchangeRates := r\<rparr>"

definition setItinerary :: "addr option \<Rightarrow> App \<Rightarrow> App" where
  "setItinerary i s = s\<lparr>itinerary := i\<rparr>"

text \<open>One user or timer event, and the state after it.\<close>

datatype action =
    Generate
  | GenerateTimeout "nat \<Rightarrow> nat \<Rightarrow> nat"
  | ClearItinerary bool
  | SaveTrip nat "string \<Rightarrow> string option"
  | LoadTrip bool nat
  | DeleteTrip bool nat
  | UpdateTripName nat string
  | AddBudgetItem nat BudgetItem
  | DeleteBudgetItem nat
  | AddContact nat Contact
  | DeleteContact nat
  | SetCurrency Currency
  | SetExchangeRates addr
  | SetItinerary "addr option"

fun step :: "Constants \<Rightarrow> action \<Rightarrow> App \<Rightarrow> App" where
  "step K Generate s = fst (handleGenerate s)"
| "step K (GenerateTimeout clk) s = handleGenerateTimeout K clk s"
| "step K (ClearItinerary confirm) s = handleClearItinerary confirm s"
| "step K (SaveTrip now prompt) s = handleSaveTrip now prompt s"
| "step K (LoadTrip confirm tripId) s = handleLoadTrip confirm tripId s"
| "step K (DeleteTrip confirm tripId) s = handleDeleteTrip confirm tripId s"
| "step K (UpdateTripName tripId newName) s = handleUpdateTripName tripId newName s"
| "step K (AddBudgetItem now item) s = handleAddBudgetItem now item s"
| "step K (DeleteBudgetItem i) s = handleDeleteBudgetItem i s"
| "step K (AddContact now contact) s = handleAddContact now contact s"
| "step K (DeleteContact i) s = handleDeleteContact i s"
| "step K (SetCurrency c) s = setCurrency c s"
| "step K (SetExchangeRates r) s = setExchangeRates r s"
| "step K (SetItinerary i) s = setItinerary i s"

fun steps :: "Constants \<Rightarrow> action list \<Rightarrow> App \<Rightarrow> App" where
  "steps K [] s = s"
| "steps K (a # as) s = steps K as (step K a s)"

text \<open>
  A write to an object that exists, as an assignment to an element or a field of a
  shared array or object would do. No handler of \<^verbatim>\<open>App.tsx\<close> contains one; it serves to
  say what sharing a reference means.
\<close>

definition writeInPlace :: "obj list \<Rightarrow> addr \<Rightarrow> obj \<Rightarrow> obj list" where
  "writeInPlace h a ob = h[a := ob]"

text \<open>The exchange-rate object of the state has an entry for the selected currency.\<close>

definition hasRate :: "obj list \<Rightarrow> addr \<Rightarrow> Currency \<Rightarrow> bool" where
  "hasRate h r c = (case readRates h r of None \<Rightarrow> False | Some m \<Rightarrow> map_of m c \<noteq> None)"

definition rateInvariant :: "App \<Rightarrow> bool" where
  "rateInvariant s = hasRate (heap s) (exchangeRates s) (currency s)"

text \<open>Every saved trip was saved with a rate for the currency it was saved with.\<close>

definition tripsRateInvariant :: "App \<Rightarrow> bool" where
  "tripsRateInvariant s =
     list_all (\<lambda>t. hasRate (heap s) (data_exchangeRates (trip_data t)) (data_currency (trip_data t)))
       (savedTrips s)"

text \<open>
  Every saved trip holds an itinerary with at least one day, and the itinerary of the
  live state, if there is one, refers to an array.
\<close>

definition tripsNonEmpty :: "App \<Rightarrow> bool" where
  "tripsNonEmpty s =
     list_all (\<lambda>t. case readArr (heap s) (data_itinerary (trip_data t)) of
                      None \<Rightarrow> False | Some ds \<Rightarrow> ds \<noteq> [])
       (savedTrips s)"

definition liveReadable :: "App \<Rightarrow> bool" where
  "liveReadable s = (case itinerary s of None \<Rightarrow> True | Some i \<Rightarrow> readArr (heap s) i \<noteq> None)"

section \<open>Reading persisted state\<close>

text \<open>
  \<^verbatim>\<open>loadState\<close>. The browser's storage is a map from keys to strings, or \<open>None\<close> when
  access to it throws; \<^verbatim>\<open>JSON.parse\<close> is a parameter that returns \<open>None\<close> where it
  throws. The second component of the result is what \<^verbatim>\<open>console.error\<close> receives.
\<close>

definition loadState ::
  "(string \<Rightarrow> 'a option) \<Rightarrow> (string \<Rightarrow> string option) option \<Rightarrow> string \<Rightarrow> 'a \<Rightarrow> 'a \<times> string list"
where
  "loadState parse localStorage key defaultValue =
     (case localStorage of
        None \<Rightarrow> (defaultValue, [''Failed to load state from localStorage for key: '' @ key])
      | Some getItem \<Rightarrow>
          (case getItem key of
             None \<Rightarrow> (defaultValue, [])
           | Some saved \<Rightarrow>
               (case parse saved of
                  None \<Rightarrow>
                    (defaultValue, [''Failed to load state from localStorage for key: '' @ key])
                | Some v \<Rightarrow> (v, []))))"

section \<open>Double-precision arithmetic\<close>

text \<open>
  A JavaScript number is an IEEE 754 double: a rational \<open>m * 2 ^ e\<close> with an integer
  \<open>m\<close> of at most 53 bits. Every arithmetic operation returns the double nearest to
  the exact result, a tie going to the even \<open>m\<close>. \<open>fl x\<close> is that double: \<open>ilog2 x\<close> is
  the exponent of the leading bit of \<open>x\<close>, \<open>rne\<close> rounds to the nearest integer, ties to
  even. The range of the exponent is not bounded; overflow and subnormal numbers, which
  coordinates on a page never reach, are not represented, nor are infinities and NaN.
\<close>

fun bitlength :: "nat \<Rightarrow> nat" where
  "bitlength n = (if n = 0 then 0 else Suc (bitlength (n div 2)))"

declare bitlength.simps [simp del]

definition ilog2 :: "rat \<Rightarrow> int" where
  "ilog2 x =
     (if 1 \<le> x then int (bitlength (nat \<lfloor>x\<rfloor>)) - 1
      else - int (bitlength (nat (\<lceil>1 / x\<rceil> - 1))))"

definition rne :: "rat \<Rightarrow> int" where
  "rne y =
     (let f = \<lfloor>y\<rfloor>
      in if y - of_int f < 1 / 2 then f
         else if 1 / 2 < y - of_int f then f + 1
         else if even f then f else f + 1)"

definition fl :: "rat \<Rightarrow> rat" where
  "fl x =
     (if x = 0 then 0
      else sgn x * of_int (rne (\<bar>x\<bar> * 2 powi (52 - ilog2 \<bar>x\<bar>))) * 2 powi (ilog2 \<bar>x\<bar> - 52))"

definition fadd :: "rat \<Rightarrow> rat \<Rightarrow> rat" where
  "fadd x y = fl (x + y)"

definition fmul :: "rat \<Rightarrow> rat \<Rightarrow> rat" where
  "fmul x y = fl (x * y)"

definition fdiv :: "rat \<Rightarrow> rat \<Rightarrow> rat" where
  "fdiv x y = fl (x / y)"

section \<open>PDF export\<close>

text \<open>
  The page constants are small integers, on which double arithmetic is exact:
  \<^verbatim>\<open>CONTENT_WIDTH\<close> is 180 and \<^verbatim>\<open>A4_HEIGHT - MARGIN\<close> is 282.
\<close>

definition A4_WIDTH :: rat where "A4_WIDTH = 210"
definition A4_HEIGHT :: rat where "A4_HEIGHT = 297"
definition MARGIN :: rat where "MARGIN = 15"
definition CONTENT_WIDTH :: rat where "CONTENT_WIDTH = A4_WIDTH - (MARGIN * 2)"

text \<open>
  An element of the page is represented by what rasterising it gives: the pixel size of
  the image, or a failure when \<^verbatim>\<open>html2canvas\<close>, the encoding of the canvas or
  \<^verbatim>\<open>addImage\<close> throws. The sizes of a canvas are integers below \<open>2 ^ 32\<close>, which doubles
  hold exactly. A canvas of width 0 gives a display height that is not a finite number in
  JavaScript; the statements below are about images of positive width.
\<close>

record ImgProps =
  width :: nat
  height :: nat

datatype HTMLElement = Renders ImgProps | RenderFails

datatype js_error = RasterError | SaveError

record DayElement =
  day_header :: "HTMLElement option"
  activity_items :: "HTMLElement list"

record ItineraryContent =
  titleElement :: "HTMLElement option"
  dayElements :: "DayElement list"

record Browser =
  jspdf_defined :: bool
  html2canvas_defined :: bool
  itineraryContent :: "ItineraryContent option"
  save_throws :: bool

definition imgHeight :: "ImgProps \<Rightarrow> rat" where
  "imgHeight imgProps =
     fdiv (fmul (of_nat (height imgProps)) CONTENT_WIDTH) (of_nat (width imgProps))"

definition newPdf :: PdfState where
  "newPdf = \<lparr>pages = 1, images = [], texts = [], yPos = MARGIN\<rparr>"

definition addPage :: "PdfState \<Rightarrow> PdfState" where
  "addPage pdf = pdf\<lparr>pages := pages pdf + 1\<rparr>"

definition addCanvasToPdf :: "HTMLElement \<Rightarrow> PdfState \<Rightarrow> js_error + PdfState" where
  "addCanvasToPdf element pdf =
     (case element of
        RenderFails \<Rightarrow> Inl RasterError
      | Renders imgProps \<Rightarrow>
          (let imgH = imgHeight imgProps;
               pdf1 = (if fadd (yPos pdf) imgH > A4_HEIGHT - MARGIN \<and> yPos pdf > MARGIN
                       then (addPage pdf)\<lparr>yPos := MARGIN\<rparr> else pdf)
           in Inr (pdf1\<lparr>images := images pdf1 @
                           [\<lparr>img_page = pages pdf1, img_x = MARGIN, img_y = yPos pdf1,
                             img_w = CONTENT_WIDTH, img_h = imgH\<rparr>],
                         yPos := fadd (yPos pdf1) (fadd imgH 2)\<rparr>)))"

definition addTitle :: "HTMLElement option \<Rightarrow> PdfState \<Rightarrow> js_error + PdfState" where
  "addTitle t pdf =
     (case t of
        None \<Rightarrow> Inr pdf
      | Some el \<Rightarrow>
          (case addCanvasToPdf el pdf of
             Inl e \<Rightarrow> Inl e
           | Inr pdf1 \<Rightarrow> Inr (pdf1\<lparr>yPos := fadd (yPos pdf1) 8\<rparr>)))"

fun addActivities :: "HTMLElement list \<Rightarrow> PdfState \<Rightarrow> js_error + PdfState" where
  "addActivities [] pdf = Inr pdf"
| "addActivities (activityEl # rest) pdf =
     (case addCanvasToPdf activityEl pdf of
        Inl e \<Rightarrow> Inl e
      | Inr pdf1 \<Rightarrow> addActivities rest pdf1)"

text \<open>
  The body of the loop over the days: the estimate whether a header still fits on the
  page (20 units, whatever the height of the header is), then the header if the day has
  one, then the activities.
\<close>

definition headerFit :: "PdfState \<Rightarrow> PdfState" where
  "headerFit pdf =
     (if fadd (yPos pdf) 20 > A4_HEIGHT - MARGIN then (addPage pdf)\<lparr>yPos := MARGIN\<rparr>
      else pdf)"

definition addHeader :: "HTMLElement option \<Rightarrow> PdfState \<Rightarrow> js_error + PdfState" where
  "addHeader header pdf = (case header of None \<Rightarrow> Inr pdf | Some el \<Rightarrow> addCanvasToPdf el pdf)"

fun addDays :: "DayElement list \<Rightarrow> PdfState \<Rightarrow> js_error + PdfState" where
  "addDays [] pdf = Inr pdf"
| "addDays (dayEl # rest) pdf =
     (case addHeader (day_header dayEl) (headerFit pdf) of
        Inl e \<Rightarrow> Inl e
      | Inr pdf1 \<Rightarrow>
          (case addActivities (activity_items dayEl) pdf1 of
             Inl e \<Rightarrow> Inl e
           | Inr pdf2 \<Rightarrow> addDays rest pdf2))"

definition paginate :: "ItineraryContent \<Rightarrow> js_error + PdfState" where
  "paginate c =
     (case addTitle (titleElement c) newPdf of
        Inl e \<Rightarrow> Inl e
      | Inr pdf1 \<Rightarrow> addDays (dayElements c) pdf1)"

definition stampPages :: "PdfState \<Rightarrow> PdfState" where
  "stampPages pdf =
     (let pageCount = pages pdf
      in pdf\<lparr>texts := texts pdf @
               map (\<lambda>i. (i, ''Page '' @ showNat i @ '' of '' @ showNat pageCount))
                 [1 ..< pageCount + 1]\<rparr>)"

text \<open>
  \<^verbatim>\<open>generatePdf\<close>. \<open>tryExport\<close> is the body of the \<^verbatim>\<open>try\<close> block: the document that
  is saved, or what was thrown. The two checks that precede the \<^verbatim>\<open>try\<close> return at once;
  the 200 ms pause after the start event changes nothing and is left out. The argument
  \<^verbatim>\<open>currentItinerary\<close> is not used by the function.
\<close>

definition tryExport :: "Browser \<Rightarrow> ItineraryContent \<Rightarrow> js_error + PdfState" where
  "tryExport br c =
     (case paginate c of
        Inl e \<Rightarrow> Inl e
      | Inr pdf \<Rightarrow> if save_throws br then Inl SaveError else Inr (stampPages pdf))"

definition generatePdf :: "Browser \<Rightarrow> addr \<Rightarrow> App \<Rightarrow> App" where
  "generatePdf br currentItinerary s =
     (if \<not> jspdf_defined br \<or> \<not> html2canvas_defined br then
        s\<lparr>error := Some ''PDF generation libraries could not be loaded. Please refresh the page and try again.''\<rparr>
      else
        (case itineraryContent br of
           None \<Rightarrow> s\<lparr>error := Some ''Can't find the itinerary to print. Did you delete it?''\<rparr>
         | Some c \<Rightarrow>
             (let s1 = s\<lparr>isGeneratingPdf := True, error := None,
                         events := events s @ [''generatePdfStart'']\<rparr>;
                  s2 = (case tryExport br c of
                          Inl e \<Rightarrow>
                            s1\<lparr>error := Some ''Failed to generate the PDF. An unexpected error occurred.''\<rparr>
                        | Inr pdf \<Rightarrow> s1\<lparr>downloads := downloads s1 @ [pdf]\<rparr>)
              in s2\<lparr>events := events s2 @ [''generatePdfEnd''], isGeneratingPdf := False\<rparr>)))"

text \<open>The elements of a document in the order in which they are rasterised.\<close>

definition dayBlocks :: "DayElement \<Rightarrow> HTMLElement list" where
  "dayBlocks d = (case day_header d of None \<Rightarrow> [] | Some el \<Rightarrow> [el]) @ activity_items d"

definition blocks :: "ItineraryContent \<Rightarrow> HTMLElement list" where
  "blocks c =
     (case titleElement c of None \<Rightarrow> [] | Some el \<Rightarrow> [el]) @ concat (map dayBlocks (dayElements c))"

fun rendered :: "HTMLElement \<Rightarrow> bool" where
  "rendered (Renders p) = (0 < width p)"
| "rendered RenderFails = False"

fun displayHeight :: "HTMLElement \<Rightarrow> rat" where
  "displayHeight (Renders p) = imgHeight p"
| "displayHeight RenderFails = 0"

definition onPage :: "nat \<Rightarrow> PdfImage list \<Rightarrow> PdfImage list" where
  "onPage n imgs = filter (\<lambda>q. img_page q = n) imgs"

text \<open>
  What holds of the document between two steps of the pagination: the cursor is at the
  top margin or at least 2 below it; every image is on an existing page; a cursor at the
  top margin means an empty current page; an image taller than the content height starts
  at the top margin, is the only image on its page, and has moved the cursor at least 2
  beyond the bottom margin while its page is the current one.
\<close>

definition pageInv :: "PdfState \<Rightarrow> bool" where
  "pageInv pdf =
     (1 \<le> pages pdf \<and> (yPos pdf = MARGIN \<or> MARGIN + 2 \<le> yPos pdf)
      \<and> (\<forall>q \<in> set (images pdf).
            img_x q = MARGIN \<and> img_w q = CONTENT_WIDTH \<and> 1 \<le> img_page q
            \<and> img_page q \<le> pages pdf \<and> MARGIN \<le> img_y q \<and> 0 \<le> img_h q)
      \<and> (yPos pdf = MARGIN \<longrightarrow> onPage (pages pdf) (images pdf) = [])
      \<and> (\<forall>q \<in> set (images pdf). A4_HEIGHT - MARGIN * 2 < img_h q \<longrightarrow>
            img_y q = MARGIN \<and> onPage (img_page q) (images pdf) = [q]
            \<and> (img_page q = pages pdf \<longrightarrow> A4_HEIGHT - MARGIN + 2 \<le> yPos pdf)))"

text \<open>
  The pagination as the amended rule describes it, over the flat sequence of what the
  export meets: the title block, the start of each day, and the blocks of the day. A
  block is placed by the height-fit rule; the start of a day applies the estimate for a
  header; the title is followed by a gap of 8.
\<close>

datatype Item = TitleItem HTMLElement | DayStart | BlockItem HTMLElement

definition dayItems :: "DayElement \<Rightarrow> Item list" where
  "dayItems d = DayStart # map BlockItem (dayBlocks d)"

definition items :: "ItineraryContent \<Rightarrow> Item list" where
  "items c =
     (case titleElement c of None \<Rightarrow> [] | Some el \<Rightarrow> [TitleItem el])
     @ concat (map dayItems (dayElements c))"

definition startsNewPage :: "rat \<Rightarrow> rat \<Rightarrow> bool" where
  "startsNewPage cursorY h = (fadd cursorY h > A4_HEIGHT - MARGIN \<and> cursorY > MARGIN)"

definition heightFit :: "rat \<Rightarrow> PdfState \<Rightarrow> PdfState" where
  "heightFit h pdf =
     (let page = (if startsNewPage (yPos pdf) h then pages pdf + 1 else pages pdf);
          y = (if startsNewPage (yPos pdf) h then MARGIN else yPos pdf)
      in pdf\<lparr>pages := page,
             images := images pdf @
               [\<lparr>img_page = page, img_x = MARGIN, img_y = y, img_w = CONTENT_WIDTH, img_h = h\<rparr>],
             yPos := fadd y (fadd h 2)\<rparr>)"

definition headerEstimate :: "PdfState \<Rightarrow> PdfState" where
  "headerEstimate pdf =
     (if fadd (yPos pdf) 20 > A4_HEIGHT - MARGIN then pdf\<lparr>pages := pages pdf + 1, yPos := MARGIN\<rparr>
      else pdf)"

fun layout :: "Item list \<Rightarrow> PdfState \<Rightarrow> js_error + PdfState" where
  "layout [] pdf = Inr pdf"
| "layout (DayStart # rest) pdf = layout rest (headerEstimate pdf)"
| "layout (BlockItem RenderFails # rest) pdf = Inl RasterError"
| "layout (BlockItem (Renders p) # rest) pdf = layout rest (heightFit (imgHeight p) pdf)"
| "layout (TitleItem RenderFails # rest) pdf = Inl RasterError"
| "layout (TitleItem (Renders p) # rest) pdf =
     layout rest ((heightFit (imgHeight p) pdf)\<lparr>yPos := fadd (yPos (heightFit (imgHeight p) pdf)) 8\<rparr>)"

fun canvasSized :: "HTMLElement \<Rightarrow> bool" where
  "canvasSized (Renders p) = (0 < width p \<and> width p < 2 ^ 32 \<and> height p < 2 ^ 32)"
| "canvasSized RenderFails = True"

section \<open>The plan that generate installs, as a value\<close>

text \<open>
  What section 4.2 of the specification says of generate: the template with every
  activity given the id \<^verbatim>\<open>activity-{day}-{index}-{time}\<close>, everything else unchanged.
\<close>

definition stampedActivities :: "(nat \<Rightarrow> nat) \<Rightarrow> nat \<Rightarrow> Activity list \<Rightarrow> Activity list" where
  "stampedActivities clk d acts =
     map (\<lambda>(index, activity). activity\<lparr>activity_id := activityId d index (clk index)\<rparr>)
       (enumerate 0 acts)"

definition stampedPlan :: "(nat \<Rightarrow> nat \<Rightarrow> nat) \<Rightarrow> DayValue list \<Rightarrow> DayValue list" where
  "stampedPlan clk tmpl =
     map (\<lambda>(k, (d, acts)). (d, stampedActivities (clk k) d acts)) (enumerate 0 tmpl)"

section \<open>A small concrete world\<close>

text \<open>
  A store with a one-day template, default budget items and contacts, and the exchange
  rates that \<^verbatim>\<open>App\<close> starts with; the state of \<^verbatim>\<open>App\<close> before and after a plan exists.
\<close>

definition exRates :: ExchangeRates where
  "exRates = [(USD, 1), (EUR, 92 / 100), (PLN, 405 / 100), (CHF, 91 / 100)]"

definition exActivity :: Activity where
  "exActivity =
     \<lparr>activity_id = ''a1'', time = ''09:00'', title = ''Senso-ji'', description = ''Temple''\<rparr>"

definition exBudgetItem :: BudgetItem where
  "exBudgetItem = \<lparr>budget_id = 1, label = ''Flights'', amount = 1200, category = ''Transport''\<rparr>"

definition exContact :: Contact where
  "exContact = \<lparr>contact_id = 1, contact_name = ''Hotel'', info = ''front desk''\<rparr>"

definition exHeap :: "obj list" where
  "exHeap =
     [Arr [1], DayObj \<lparr>day = 1, activities = 2\<rparr>, Arr [3], ActivityObj exActivity,
      BudgetItemObj exBudgetItem, Arr [4], ContactObj exContact, Arr [6],
      RatesObj exRates, Arr [], Arr [], RatesObj [(USD, 1)]]"

definition exConstants :: Constants where
  "exConstants =
     \<lparr>polishedTemplate_itinerary = 0, defaultBudgetItems = 5, defaultContacts = 7\<rparr>"

definition exData :: TripData where
  "exData =
     \<lparr>data_itinerary = 0, data_budgetItems = 5, data_contacts = 7, data_currency = USD,
      data_exchangeRates = 8\<rparr>"

definition exDataValue :: DataValue where
  "exDataValue =
     \<lparr>v_itinerary = [(1, [exActivity])], v_budgetItems = [exBudgetItem],
      v_contacts = [exContact], v_currency = USD, v_exchangeRates = exRates\<rparr>"

definition exTrip :: SavedTrip where
  "exTrip =
     \<lparr>trip_id = 1000, trip_name = ''Tokyo'',
      formState =
        \<lparr>form_destination = ''Tokyo, Japan'', form_startDate = ''2024-10-15'',
         form_endDate = ''2024-10-20'', form_interests = ''Ramen''\<rparr>,
      trip_data = exData\<rparr>"

definition exEmpty :: App where
  "exEmpty =
     \<lparr>destination = ''Tokyo, Japan'', startDate = ''2024-10-15'', endDate = ''2024-10-20'',
      interests = ''Ramen'', isLoading = False, error = None, isGeneratingPdf = False,
      itinerary = None, budgetItems = 9, contacts = 10, currency = USD, exchangeRates = 8,
      savedTrips = [], heap = exHeap, alerts = [], events = [], downloads = []\<rparr>"

definition exSaved :: App where
  "exSaved = exEmpty\<lparr>savedTrips := [exTrip]\<rparr>"

definition exPlanned :: App where
  "exPlanned =
     exEmpty\<lparr>itinerary := Some 0, budgetItems := 5, contacts := 7, savedTrips := [exTrip]\<rparr>"

definition cancelPrompt :: "string \<Rightarrow> string option" where
  "cancelPrompt offered = None"

definition acceptPrompt :: "string \<Rightarrow> string option" where
  "acceptPrompt offered = Some offered"

definition exClock :: "nat \<Rightarrow> nat \<Rightarrow> nat" where
  "exClock k index = 1700000000000 + k + index"

definition parseBool :: "string \<Rightarrow> bool option" where
  "parseBool txt = (if txt = ''true'' then Some True else if txt = ''false'' then Some False else None)"

definition exStorage :: "string \<Rightarrow> string option" where
  "exStorage key = (if key = ''flag'' then Some ''true'' else if key = ''broken'' then Some ''tru'' else None)"

definition block :: "nat \<Rightarrow> HTMLElement" where
  "block h = Renders \<lparr>width = 180, height = h\<rparr>"

definition exContent :: ItineraryContent where
  "exContent =
     \<lparr>titleElement = Some (block 40),
      dayElements = [\<lparr>day_header = Some (block 40), activity_items = [block 250]\<rparr>]\<rparr>"

definition exActivitiesOnly :: ItineraryContent where
  "exActivitiesOnly =
     \<lparr>titleElement = None,
      dayElements = [\<lparr>day_header = None, activity_items = [block 40, block 40, block 250]\<rparr>]\<rparr>"

definition exTallTitle :: ItineraryContent where
  "exTallTitle =
     \<lparr>titleElement = Some (block 240),
      dayElements = [\<lparr>day_header = Some (block 10), activity_items = []\<rparr>]\<rparr>"

definition exRounding :: ItineraryContent where
  "exRounding =
     \<lparr>titleElement = None,
      dayElements =
        [\<lparr>day_header = None,
          activity_items = [Renders \<lparr>width = 27, height = 38\<rparr>, Renders \<lparr>width = 108, height = 7\<rparr>]\<rparr>]\<rparr>"

definition exAfterTall :: ItineraryContent where
  "exAfterTall =
     \<lparr>titleElement = None,
      dayElements = [\<lparr>day_header = None, activity_items = [block 250, block 5]\<rparr>]\<rparr>"

definition exTallActivity :: ItineraryContent where
  "exTallActivity =
     \<lparr>titleElement = Some (block 40),
      dayElements = [\<lparr>day_header = Some (block 40), activity_items = [block 300, block 10]\<rparr>]\<rparr>"

definition exBrowser :: Browser where
  "exBrowser =
     \<lparr>jspdf_defined = True, html2canvas_defined = True, itineraryContent = Some exContent,
      save_throws = False\<rparr>"

section \<open>The store only grows\<close>

text \<open>
  Whatever can be read from the store can be read, with the same result, from every
  store that extends it; and every handler extends the store.
\<close>

lemma lookup_mono: "prefix h h' \<Longrightarrow> lookup h a = Some v \<Longrightarrow> lookup h' a = Some v"
  by (auto simp: lookup_def prefix_def nth_append split: if_splits)

lemma readArr_mono: "prefix h h' \<Longrightarrow> readArr h a = Some v \<Longrightarrow> readArr h' a = Some v"
  by (auto simp: readArr_def dest: lookup_mono split: option.splits obj.splits)

lemma readActivity_mono:
  "prefix h h' \<Longrightarrow> readActivity h a = Some v \<Longrightarrow> readActivity h' a = Some v"
  by (auto simp: readActivity_def dest: lookup_mono split: option.splits obj.splits)

lemma readDay_mono: "prefix h h' \<Longrightarrow> readDay h a = Some v \<Longrightarrow> readDay h' a = Some v"
  by (auto simp: readDay_def dest: lookup_mono split: option.splits obj.splits)

lemma readBudgetItem_mono:
  "prefix h h' \<Longrightarrow> readBudgetItem h a = Some v \<Longrightarrow> readBudgetItem h' a = Some v"
  by (auto simp: readBudgetItem_def dest: lookup_mono split: option.splits obj.splits)

lemma readContact_mono:
  "prefix h h' \<Longrightarrow> readContact h a = Some v \<Longrightarrow> readContact h' a = Some v"
  by (auto simp: readContact_def dest: lookup_mono split: option.splits obj.splits)

lemma readRates_mono: "prefix h h' \<Longrightarrow> readRates h a = Some v \<Longrightarrow> readRates h' a = Some v"
  by (auto simp: readRates_def dest: lookup_mono split: option.splits obj.splits)

lemma mapM_mono:
  assumes "\<And>x y. f x = Some y \<Longrightarrow> g x = Some y"
  shows "mapM f xs = Some ys \<Longrightarrow> mapM g xs = Some ys"
proof (induction xs arbitrary: ys)
  case Nil
  then show ?case by simp
next
  case (Cons x xs)
  then show ?case by (auto split: option.splits dest: assms)
qed

lemma dayValue_mono:
  assumes p: "prefix h h'" and v: "dayValue h a = Some v"
  shows "dayValue h' a = Some v"
proof -
  from v obtain d as acts where
    d: "readDay h a = Some d" and as: "readArr h (activities d) = Some as" and
    acts: "mapM (readActivity h) as = Some acts" and veq: "v = (day d, acts)"
    by (auto simp: dayValue_def split: option.splits)
  have "readDay h' a = Some d" by (rule readDay_mono [OF p d])
  moreover have "readArr h' (activities d) = Some as" by (rule readArr_mono [OF p as])
  moreover have "mapM (readActivity h') as = Some acts"
    by (rule mapM_mono [OF readActivity_mono [OF p] acts])
  ultimately show ?thesis by (simp add: dayValue_def veq)
qed

lemma itineraryValue_mono:
  assumes p: "prefix h h'" and v: "itineraryValue h a = Some v"
  shows "itineraryValue h' a = Some v"
proof -
  from v obtain ds where ds: "readArr h a = Some ds" and m: "mapM (dayValue h) ds = Some v"
    by (auto simp: itineraryValue_def split: option.splits)
  have "readArr h' a = Some ds" by (rule readArr_mono [OF p ds])
  moreover have "mapM (dayValue h') ds = Some v" by (rule mapM_mono [OF dayValue_mono [OF p] m])
  ultimately show ?thesis by (simp add: itineraryValue_def)
qed

lemma budgetValue_mono:
  assumes p: "prefix h h'" and v: "budgetValue h a = Some v"
  shows "budgetValue h' a = Some v"
proof -
  from v obtain xs where xs: "readArr h a = Some xs" and m: "mapM (readBudgetItem h) xs = Some v"
    by (auto simp: budgetValue_def split: option.splits)
  have "readArr h' a = Some xs" by (rule readArr_mono [OF p xs])
  moreover have "mapM (readBudgetItem h') xs = Some v"
    by (rule mapM_mono [OF readBudgetItem_mono [OF p] m])
  ultimately show ?thesis by (simp add: budgetValue_def)
qed

lemma contactsValue_mono:
  assumes p: "prefix h h'" and v: "contactsValue h a = Some v"
  shows "contactsValue h' a = Some v"
proof -
  from v obtain xs where xs: "readArr h a = Some xs" and m: "mapM (readContact h) xs = Some v"
    by (auto simp: contactsValue_def split: option.splits)
  have "readArr h' a = Some xs" by (rule readArr_mono [OF p xs])
  moreover have "mapM (readContact h') xs = Some v"
    by (rule mapM_mono [OF readContact_mono [OF p] m])
  ultimately show ?thesis by (simp add: contactsValue_def)
qed

lemma dataValue_mono:
  assumes p: "prefix h h'" and v: "dataValue h d = Some v"
  shows "dataValue h' d = Some v"
proof -
  from v obtain i b c r where
    i: "itineraryValue h (data_itinerary d) = Some i" and
    b: "budgetValue h (data_budgetItems d) = Some b" and
    c: "contactsValue h (data_contacts d) = Some c" and
    r: "readRates h (data_exchangeRates d) = Some r" and
    veq: "v = \<lparr>v_itinerary = i, v_budgetItems = b, v_contacts = c,
                v_currency = data_currency d, v_exchangeRates = r\<rparr>"
    by (auto simp: dataValue_def split: option.splits)
  show ?thesis
    by (simp add: dataValue_def veq itineraryValue_mono [OF p i] budgetValue_mono [OF p b]
        contactsValue_mono [OF p c] readRates_mono [OF p r])
qed

lemma stampActivities_prefix:
  "stampActivities clk d index as h = Some (as', h') \<Longrightarrow> prefix h h'"
proof (induction as arbitrary: index h as' h')
  case Nil
  then show ?case by simp
next
  case (Cons a as)
  then show ?case
    by (auto simp: alloc_def split: option.splits prod.splits dest!: Cons.IH dest: append_prefixD)
qed

lemma stampDays_prefix: "stampDays clk k ds h = Some (ds', h') \<Longrightarrow> prefix h h'"
proof (induction ds arbitrary: k h ds' h')
  case Nil
  then show ?case by simp
next
  case (Cons a ds)
  then show ?case
    by (auto simp: alloc_def split: option.splits prod.splits
        dest!: Cons.IH stampActivities_prefix dest: append_prefixD prefix_order.trans)
qed

lemma planWithIds_prefix: "planWithIds K clk h = Some (plan, h') \<Longrightarrow> prefix h h'"
  by (auto simp: planWithIds_def alloc_def split: option.splits prod.splits
      dest!: stampDays_prefix)

lemma heap_step: "prefix (heap s) (heap (step K a s))"
proof (cases a)
  case Generate
  then show ?thesis by (simp add: handleGenerate_def alloc_def)
next
  case (GenerateTimeout clk)
  then show ?thesis
    by (auto simp: handleGenerateTimeout_def split: option.splits dest: planWithIds_prefix)
next
  case (ClearItinerary confirm)
  then show ?thesis by (simp add: handleClearItinerary_def alloc_def)
next
  case (SaveTrip now prompt)
  then show ?thesis by (simp add: handleSaveTrip_def Let_def split: option.splits)
next
  case (LoadTrip confirm tripId)
  then show ?thesis by (simp add: handleLoadTrip_def split: option.splits)
next
  case (DeleteTrip confirm tripId)
  then show ?thesis by (simp add: handleDeleteTrip_def)
next
  case (UpdateTripName tripId newName)
  then show ?thesis by (simp add: handleUpdateTripName_def)
next
  case (AddBudgetItem now item)
  then show ?thesis by (simp add: handleAddBudgetItem_def alloc_def split: option.splits)
next
  case (DeleteBudgetItem i)
  then show ?thesis by (simp add: handleDeleteBudgetItem_def alloc_def split: option.splits)
next
  case (AddContact now contact)
  then show ?thesis by (simp add: handleAddContact_def alloc_def split: option.splits)
next
  case (DeleteContact i)
  then show ?thesis by (simp add: handleDeleteContact_def alloc_def split: option.splits)
next
  case (SetCurrency c)
  then show ?thesis by (simp add: setCurrency_def)
next
  case (SetExchangeRates r)
  then show ?thesis by (simp add: setExchangeRates_def)
next
  case (SetItinerary i)
  then show ?thesis by (simp add: setItinerary_def)
qed

lemma hasRate_mono: "prefix h h' \<Longrightarrow> hasRate h r c \<Longrightarrow> hasRate h' r c"
  by (auto simp: hasRate_def split: option.splits dest: readRates_mono)

lemma tripsRate_mono:
  "prefix h h' \<Longrightarrow>
   list_all (\<lambda>t. hasRate h (data_exchangeRates (trip_data t)) (data_currency (trip_data t))) ts \<Longrightarrow>
   list_all (\<lambda>t. hasRate h' (data_exchangeRates (trip_data t)) (data_currency (trip_data t))) ts"
  by (induction ts) (auto dest: hasRate_mono)

lemma find_in_set: "find P xs = Some x \<Longrightarrow> x \<in> set xs \<and> P x"
  by (induction xs) (auto split: if_splits)

lemma savedTrips_cases:
  "savedTrips (step K a s) = savedTrips s
   \<or> (\<exists>c i. a = DeleteTrip c i \<and> savedTrips (step K a s) = filter (\<lambda>t. trip_id t \<noteq> i) (savedTrips s))
   \<or> (\<exists>i n. a = UpdateTripName i n \<and> savedTrips (step K a s) =
         map (\<lambda>trip. if trip_id trip = i then trip\<lparr>trip_name := n\<rparr> else trip) (savedTrips s))
   \<or> (\<exists>now p i n. a = SaveTrip now p \<and> itinerary s = Some i \<and> savedTrips (step K a s) = savedTrips s @
         [\<lparr>trip_id = now, trip_name = n, formState = liveForm s,
           trip_data = \<lparr>data_itinerary = i, data_budgetItems = budgetItems s,
                      data_contacts = contacts s, data_currency = currency s,
                      data_exchangeRates = exchangeRates s\<rparr>\<rparr>])"
  by (cases a)
    (auto simp: handleGenerate_def handleGenerateTimeout_def handleClearItinerary_def
      handleSaveTrip_def handleLoadTrip_def handleDeleteTrip_def handleUpdateTripName_def
      handleAddBudgetItem_def handleDeleteBudgetItem_def handleAddContact_def
      handleDeleteContact_def setCurrency_def setExchangeRates_def setItinerary_def
      alloc_def Let_def split: option.splits prod.splits)

lemma tripsRate_step:
  assumes "rateInvariant s" and "tripsRateInvariant s"
  shows "tripsRateInvariant (step K a s)"
proof -
  let ?P = "\<lambda>h t. hasRate h (data_exchangeRates (trip_data t)) (data_currency (trip_data t))"
  have old: "list_all (?P (heap (step K a s))) (savedTrips s)"
    using assms(2) tripsRate_mono [OF heap_step] by (simp add: tripsRateInvariant_def)
  have live: "hasRate (heap (step K a s)) (exchangeRates s) (currency s)"
    using assms(1) hasRate_mono [OF heap_step] by (simp add: rateInvariant_def)
  from savedTrips_cases [of K a s] show ?thesis
    using old live by (auto simp: tripsRateInvariant_def list_all_iff)
qed

lemma rates_unchanged:
  "(case a of SetCurrency c \<Rightarrow> True | SetExchangeRates r \<Rightarrow> True | LoadTrip c i \<Rightarrow> True
    | _ \<Rightarrow> currency (step K a s) = currency s \<and> exchangeRates (step K a s) = exchangeRates s)"
  by (cases a)
    (auto simp: handleGenerate_def handleGenerateTimeout_def handleClearItinerary_def
      handleSaveTrip_def handleDeleteTrip_def handleUpdateTripName_def
      handleAddBudgetItem_def handleDeleteBudgetItem_def handleAddContact_def
      handleDeleteContact_def setItinerary_def
      alloc_def Let_def split: option.splits prod.splits)

lemma rate_load:
  assumes "rateInvariant s" and "tripsRateInvariant s"
  shows "rateInvariant (handleLoadTrip c i s)"
  using assms
  by (auto simp: handleLoadTrip_def rateInvariant_def tripsRateInvariant_def list_all_iff
      split: option.splits dest!: find_in_set)

lemma heap_steps: "prefix (heap s) (heap (steps K as s))"
proof (induction as arbitrary: s)
  case Nil
  then show ?case by simp
next
  case (Cons a as)
  have "prefix (heap s) (heap (step K a s))" by (rule heap_step)
  also have "prefix (heap (step K a s)) (heap (steps K as (step K a s)))" by (rule Cons.IH)
  finally show ?case by simp
qed

lemma history_frame:
  "(case a of
      SaveTrip now p \<Rightarrow>
        savedTrips (step K a s) = savedTrips s
        \<or> (\<exists>t. savedTrips (step K a s) = savedTrips s @ [t] \<and> liveData s = Some (trip_data t)
               \<and> formState t = liveForm s \<and> trip_id t = now)
    | DeleteTrip c i \<Rightarrow>
        savedTrips (step K a s) = savedTrips s
        \<or> savedTrips (step K a s) = filter (\<lambda>t. trip_id t \<noteq> i) (savedTrips s)
    | UpdateTripName i n \<Rightarrow>
        map trip_data (savedTrips (step K a s)) = map trip_data (savedTrips s)
        \<and> map formState (savedTrips (step K a s)) = map formState (savedTrips s)
        \<and> map trip_id (savedTrips (step K a s)) = map trip_id (savedTrips s)
    | _ \<Rightarrow> savedTrips (step K a s) = savedTrips s)"
  by (cases a)
    (auto simp: handleGenerate_def handleGenerateTimeout_def handleClearItinerary_def
      handleSaveTrip_def handleLoadTrip_def handleDeleteTrip_def handleUpdateTripName_def
      handleAddBudgetItem_def handleDeleteBudgetItem_def handleAddContact_def
      handleDeleteContact_def setCurrency_def setExchangeRates_def setItinerary_def
      liveData_def alloc_def Let_def split: option.splits prod.splits)

lemma load_installs:
  assumes "find (\<lambda>t. trip_id t = tripId) (savedTrips s) = Some t"
  shows "liveData (handleLoadTrip True tripId s) = Some (trip_data t)
    \<and> liveForm (handleLoadTrip True tripId s) = formState t
    \<and> heap (handleLoadTrip True tripId s) = heap s
    \<and> savedTrips (handleLoadTrip True tripId s) = savedTrips s"
  using assms by (simp add: handleLoadTrip_def liveData_def liveForm_def)

lemma find_present: "x \<in> set xs \<Longrightarrow> P x \<Longrightarrow> \<exists>y. find P xs = Some y"
  by (induction xs) auto

lemma tripsNonEmpty_step:
  assumes "tripsNonEmpty s" and "liveReadable s"
  shows "tripsNonEmpty (step K a s)"
proof -
  let ?P = "\<lambda>h t. case readArr h (data_itinerary (trip_data t)) of
                      None \<Rightarrow> False | Some ds \<Rightarrow> ds \<noteq> []"
  have mono: "?P (heap s) t \<Longrightarrow> ?P (heap (step K a s)) t" for t
    using readArr_mono [OF heap_step, of s _ _ K a] by (auto split: option.splits)
  then have old: "list_all (?P (heap (step K a s))) (savedTrips s)"
    using assms(1) by (auto simp: tripsNonEmpty_def list_all_iff)
  from savedTrips_cases [of K a s] show ?thesis
  proof (elim disjE exE conjE)
    fix now p i n
    assume a: "a = SaveTrip now p" and i: "itinerary s = Some i"
      and eq: "savedTrips (step K a s) = savedTrips s @
         [\<lparr>trip_id = now, trip_name = n, formState = liveForm s,
           trip_data = \<lparr>data_itinerary = i, data_budgetItems = budgetItems s,
                      data_contacts = contacts s, data_currency = currency s,
                      data_exchangeRates = exchangeRates s\<rparr>\<rparr>]"
    from eq a i have "readArr (heap s) i \<noteq> Some []"
      by (auto simp: handleSaveTrip_def Let_def split: option.splits if_splits)
    moreover from assms(2) i have "readArr (heap s) i \<noteq> None" by (simp add: liveReadable_def)
    moreover have "heap (step K a s) = heap s"
      using a by (simp add: handleSaveTrip_def Let_def split: option.splits)
    ultimately show ?thesis using old eq
      by (auto simp: tripsNonEmpty_def split: option.splits)
  qed (use old in \<open>auto simp: tripsNonEmpty_def list_all_iff\<close>)
qed

lemma exPlanned_itinerary: "itinerary exPlanned = Some 0 \<and> readArr (heap exPlanned) 0 = Some [1]"
  by (simp add: exPlanned_def exEmpty_def exHeap_def readArr_def lookup_def)

section \<open>Saving a trip\<close>

text \<open>
  C5, as the specification states it, fails on \<^verbatim>\<open>handleSaveTrip\<close>: with a plan that is
  neither null nor empty, nothing is appended when the name dialog is cancelled; and the
  id, the reading of the clock, can be the id of a trip that is already saved.
\<close>

theorem save_appends_counterexample:
  "itinerary exPlanned = Some 0 \<and> readArr (heap exPlanned) 0 = Some [1]
   \<and> savedTrips (handleSaveTrip 2000 cancelPrompt exPlanned) = savedTrips exPlanned
   \<and> trip_id (last (savedTrips (handleSaveTrip 1000 acceptPrompt exPlanned)))
       \<in> trip_id ` set (savedTrips exPlanned)"
  by (simp add: handleSaveTrip_def exPlanned_def exEmpty_def exHeap_def readArr_def lookup_def
      cancelPrompt_def acceptPrompt_def exTrip_def)

text \<open>
  C5, amended: if the itinerary is null or empty, \<^verbatim>\<open>handleSaveTrip\<close> shows the alert and
  changes nothing else, so the saved trips stay as they are. If the itinerary is neither
  and the user enters a non-empty name, exactly one trip is appended at the end of the
  saved trips; it holds that name, the form fields, the addresses of the live aggregate
  and the reading of the clock as its id, which is different from the ids already in use
  whenever the clock reading is.
\<close>

theorem save_rejects_or_appends:
  "(itinerary s = None \<or> (\<exists>i. itinerary s = Some i \<and> readArr (heap s) i = Some [])
      \<longrightarrow> handleSaveTrip now prompt s = s\<lparr>alerts := alerts s @ [noItineraryMessage]\<rparr>)
   \<and> (\<forall>i ds tripName. itinerary s = Some i \<and> readArr (heap s) i = Some ds \<and> ds \<noteq> []
        \<and> prompt (destination s @ '' | '' @ startDate s @ '' to '' @ endDate s) = Some tripName
        \<and> tripName \<noteq> []
      \<longrightarrow> handleSaveTrip now prompt s =
            s\<lparr>savedTrips := savedTrips s @
                 [\<lparr>trip_id = now, trip_name = tripName, formState = liveForm s,
                   trip_data = \<lparr>data_itinerary = i, data_budgetItems = budgetItems s,
                      data_contacts = contacts s, data_currency = currency s,
                      data_exchangeRates = exchangeRates s\<rparr>\<rparr>],
              alerts := alerts s @ [savedMessage tripName]\<rparr>
          \<and> (distinct (map trip_id (savedTrips s)) \<and> now \<notin> trip_id ` set (savedTrips s)
               \<longrightarrow> distinct (map trip_id (savedTrips (handleSaveTrip now prompt s)))))"
  by (auto simp: handleSaveTrip_def)

theorem save_rejects_or_appends_witness:
  "itinerary exEmpty = None
   \<and> handleSaveTrip 2000 acceptPrompt exEmpty = exEmpty\<lparr>alerts := alerts exEmpty @ [noItineraryMessage]\<rparr>
   \<and> itinerary exPlanned = Some 0 \<and> readArr (heap exPlanned) 0 = Some [1] \<and> [1::nat] \<noteq> []
   \<and> acceptPrompt (destination exPlanned @ '' | '' @ startDate exPlanned @ '' to '' @ endDate exPlanned)
       = Some ''Tokyo, Japan | 2024-10-15 to 2024-10-20''
   \<and> length (savedTrips (handleSaveTrip 2000 acceptPrompt exPlanned)) = length (savedTrips exPlanned) + 1
   \<and> trip_id (last (savedTrips (handleSaveTrip 2000 acceptPrompt exPlanned))) = 2000
   \<and> distinct (map trip_id (savedTrips (handleSaveTrip 2000 acceptPrompt exPlanned)))"
proof -
  have a: "itinerary exEmpty = None" by (simp add: exEmpty_def)
  have b: "acceptPrompt (destination exPlanned @ '' | '' @ startDate exPlanned @ '' to '' @ endDate exPlanned)
       = Some ''Tokyo, Japan | 2024-10-15 to 2024-10-20''"
    by (simp add: acceptPrompt_def exPlanned_def exEmpty_def)
  have c: "distinct (map trip_id (savedTrips exPlanned)) \<and> 2000 \<notin> trip_id ` set (savedTrips exPlanned)"
    by (simp add: exPlanned_def exTrip_def)
  show ?thesis
    using save_rejects_or_appends [of exEmpty 2000 acceptPrompt]
      save_rejects_or_appends [of exPlanned 2000 acceptPrompt] a b c exPlanned_itinerary
    by simp
qed

text \<open>
  C10: with an itinerary that is neither null nor empty, \<^verbatim>\<open>handleSaveTrip\<close> leaves the
  whole state as it is when the name dialog is cancelled or answered with the empty
  string: no trip is created, the saved trips are unchanged, and no alert or error is
  added.
\<close>

theorem save_without_name:
  assumes "itinerary s = Some i" and "readArr (heap s) i = Some ds" and "ds \<noteq> []"
    and "prompt (destination s @ '' | '' @ startDate s @ '' to '' @ endDate s) = None
         \<or> prompt (destination s @ '' | '' @ startDate s @ '' to '' @ endDate s) = Some []"
  shows "handleSaveTrip now prompt s = s"
  using assms by (auto simp: handleSaveTrip_def)

theorem save_without_name_witness:
  "itinerary exPlanned = Some 0 \<and> readArr (heap exPlanned) 0 = Some [1] \<and> [1::nat] \<noteq> []
   \<and> cancelPrompt (destination exPlanned @ '' | '' @ startDate exPlanned @ '' to '' @ endDate exPlanned) = None
   \<and> handleSaveTrip 2000 cancelPrompt exPlanned = exPlanned"
  using save_without_name [of exPlanned 0 "[1]" cancelPrompt 2000] exPlanned_itinerary
  by (simp add: cancelPrompt_def)

section \<open>Reading persisted state\<close>

text \<open>
  C8: for every key and default, \<^verbatim>\<open>loadState\<close> returns the parsed value when the key
  is stored and its text parses, and the default when the key is missing, when the text
  does not parse or when the storage cannot be read. It returns in every case: the
  \<^verbatim>\<open>try\<close> covers the whole body.
\<close>

theorem loadState_contract:
  "(localStorage = Some getItem \<and> getItem key = Some saved \<and> parse saved = Some v
      \<longrightarrow> fst (loadState parse localStorage key defaultValue) = v)
   \<and> (localStorage = None \<or> (localStorage = Some getItem \<and> getItem key = None)
        \<or> (localStorage = Some getItem \<and> getItem key = Some saved \<and> parse saved = None)
      \<longrightarrow> fst (loadState parse localStorage key defaultValue) = defaultValue)"
  by (auto simp: loadState_def)

theorem loadState_contract_witness:
  "Some exStorage = Some exStorage \<and> exStorage ''flag'' = Some ''true'' \<and> parseBool ''true'' = Some True
   \<and> fst (loadState parseBool (Some exStorage) ''flag'' False) = True
   \<and> exStorage ''absent'' = None
   \<and> fst (loadState parseBool (Some exStorage) ''absent'' False) = False
   \<and> exStorage ''broken'' = Some ''tru'' \<and> parseBool ''tru'' = None
   \<and> fst (loadState parseBool (Some exStorage) ''broken'' True) = True"
  using loadState_contract [of "Some exStorage" exStorage "''flag''" "''true''" parseBool True False]
    loadState_contract [of "Some exStorage" exStorage "''absent''" "''true''" parseBool True False]
    loadState_contract [of "Some exStorage" exStorage "''broken''" "''tru''" parseBool True True]
  by (simp add: exStorage_def parseBool_def)

section \<open>The signals of the export\<close>

text \<open>
  C3, as the specification states it, fails on \<^verbatim>\<open>generatePdf\<close>: when a library is
  missing or the content node is not found, the function returns before the \<^verbatim>\<open>try\<close>
  statement, and \<^verbatim>\<open>generatePdfEnd\<close> is not dispatched at all.
\<close>

theorem export_end_counterexample:
  "count_list (events (generatePdf (exBrowser\<lparr>html2canvas_defined := False\<rparr>) 0 exPlanned)) ''generatePdfEnd'' = 0
   \<and> count_list (events (generatePdf (exBrowser\<lparr>itineraryContent := None\<rparr>) 0 exPlanned)) ''generatePdfEnd'' = 0"
  by (simp add: generatePdf_def exBrowser_def exPlanned_def exEmpty_def)

text \<open>
  C3, amended: once both libraries and the content node are found, \<^verbatim>\<open>generatePdf\<close>
  dispatches \<^verbatim>\<open>generatePdfStart\<close> and then \<^verbatim>\<open>generatePdfEnd\<close>, each exactly once, and
  resets the in-progress flag, whether the rasterisation and the assembly complete or
  throw. When the verification fails, neither event is dispatched and an error message
  is set.
\<close>

theorem export_end_once:
  "(jspdf_defined br \<and> html2canvas_defined br \<and> itineraryContent br = Some c
      \<longrightarrow> events (generatePdf br currentItinerary s)
            = events s @ [''generatePdfStart'', ''generatePdfEnd'']
          \<and> \<not> isGeneratingPdf (generatePdf br currentItinerary s))
   \<and> (\<not> jspdf_defined br \<or> \<not> html2canvas_defined br \<or> itineraryContent br = None
      \<longrightarrow> events (generatePdf br currentItinerary s) = events s
          \<and> error (generatePdf br currentItinerary s) \<noteq> None)"
  by (auto simp: generatePdf_def Let_def split: option.splits sum.splits)

theorem export_end_once_witness:
  "jspdf_defined exBrowser \<and> html2canvas_defined exBrowser
   \<and> itineraryContent (exBrowser\<lparr>save_throws := True\<rparr>) = Some exContent
   \<and> events (generatePdf (exBrowser\<lparr>save_throws := True\<rparr>) 0 exPlanned)
       = [''generatePdfStart'', ''generatePdfEnd'']
   \<and> \<not> jspdf_defined (exBrowser\<lparr>jspdf_defined := False\<rparr>)
   \<and> events (generatePdf (exBrowser\<lparr>jspdf_defined := False\<rparr>) 0 exPlanned) = []"
  using export_end_once [of "exBrowser\<lparr>save_throws := True\<rparr>" exContent 0 exPlanned]
    export_end_once [of "exBrowser\<lparr>jspdf_defined := False\<rparr>" exContent 0 exPlanned]
  by (simp add: exBrowser_def exPlanned_def exEmpty_def)

section \<open>Exchange rates and the selected currency\<close>

text \<open>
  C6, as the specification states it, fails on the two setters: \<^verbatim>\<open>setCurrency\<close> and
  \<^verbatim>\<open>setExchangeRates\<close> store what they are given. Selecting EUR while the rates hold
  USD only, or installing such rates while EUR is selected, leaves the selected
  currency without a rate.
\<close>

theorem rate_counterexample:
  "rateInvariant (setExchangeRates 11 exPlanned)
   \<and> \<not> rateInvariant (setCurrency EUR (setExchangeRates 11 exPlanned))
   \<and> rateInvariant (setCurrency EUR exPlanned)
   \<and> \<not> rateInvariant (setExchangeRates 11 (setCurrency EUR exPlanned))"
  by (simp add: rateInvariant_def hasRate_def readRates_def lookup_def setCurrency_def
      setExchangeRates_def exPlanned_def exEmpty_def exHeap_def exRates_def)

text \<open>
  C6, amended: in a state whose rates have an entry for the selected currency and
  whose saved trips were each saved with such an entry, every handler other than the
  two setters (generate and its timer, clear, save, load, delete and rename of a trip,
  add and delete of a budget item or contact, \<^verbatim>\<open>setItinerary\<close>) leads to a state of the
  same kind. \<^verbatim>\<open>setCurrency c\<close> does so exactly when the rates have an entry for \<open>c\<close>,
  \<^verbatim>\<open>setExchangeRates r\<close> exactly when \<open>r\<close> has an entry for the selected currency.
\<close>

theorem rate_preserved:
  assumes "rateInvariant s" and "tripsRateInvariant s"
  shows "tripsRateInvariant (step K a s)
    \<and> (case a of
          SetCurrency c \<Rightarrow> rateInvariant (step K a s) = hasRate (heap s) (exchangeRates s) c
        | SetExchangeRates r \<Rightarrow> rateInvariant (step K a s) = hasRate (heap s) r (currency s)
        | _ \<Rightarrow> rateInvariant (step K a s))"
proof -
  have live: "hasRate (heap (step K a s)) (exchangeRates s) (currency s)"
    using assms(1) hasRate_mono [OF heap_step] by (simp add: rateInvariant_def)
  have "(case a of
          SetCurrency c \<Rightarrow> rateInvariant (step K a s) = hasRate (heap s) (exchangeRates s) c
        | SetExchangeRates r \<Rightarrow> rateInvariant (step K a s) = hasRate (heap s) r (currency s)
        | _ \<Rightarrow> rateInvariant (step K a s))"
  proof (cases a)
    case (LoadTrip c i)
    then show ?thesis using rate_load [OF assms] by simp
  next
    case (SetCurrency c)
    then show ?thesis by (simp add: rateInvariant_def setCurrency_def)
  next
    case (SetExchangeRates r)
    then show ?thesis by (simp add: rateInvariant_def setExchangeRates_def)
  qed (use live rates_unchanged [where a = a and K = K and s = s] in \<open>auto simp: rateInvariant_def\<close>)
  with tripsRate_step [OF assms] show ?thesis by simp
qed

theorem rate_preserved_witness:
  "rateInvariant exPlanned \<and> tripsRateInvariant exPlanned
   \<and> tripsRateInvariant (step exConstants (LoadTrip True 1000) exPlanned)
   \<and> rateInvariant (step exConstants (LoadTrip True 1000) exPlanned)
   \<and> rateInvariant (step exConstants (SetCurrency PLN) exPlanned)"
proof -
  have a: "rateInvariant exPlanned"
    by (simp add: rateInvariant_def hasRate_def readRates_def lookup_def exPlanned_def
        exEmpty_def exHeap_def exRates_def)
  have b: "tripsRateInvariant exPlanned"
    by (simp add: tripsRateInvariant_def hasRate_def readRates_def lookup_def exPlanned_def
        exEmpty_def exHeap_def exRates_def exTrip_def exData_def)
  have c: "hasRate (heap exPlanned) (exchangeRates exPlanned) PLN"
    by (simp add: hasRate_def readRates_def lookup_def exPlanned_def
        exEmpty_def exHeap_def exRates_def)
  show ?thesis
    using rate_preserved [OF a b, of exConstants "LoadTrip True 1000"]
      rate_preserved [OF a b, of exConstants "SetCurrency PLN"] a b c
    by simp
qed

section \<open>Snapshots and the live aggregate\<close>

lemma exSaved_value: "dataValue (heap exSaved) (trip_data exTrip) = Some exDataValue"
  by (simp add: dataValue_def itineraryValue_def dayValue_def budgetValue_def contactsValue_def
      readArr_def readDay_def readActivity_def readBudgetItem_def readContact_def readRates_def
      lookup_def exSaved_def exEmpty_def exHeap_def exTrip_def exData_def exDataValue_def)

text \<open>
  C1, as the specification states it, fails: neither \<^verbatim>\<open>handleSaveTrip\<close> nor
  \<^verbatim>\<open>handleLoadTrip\<close> copies anything. Saving the live aggregate, whose arrays are at the
  addresses 0, 5 and 7, stores these very addresses in the new trip and leaves the
  store as it is. Loading the trip 1000 makes the address 0 of the snapshot's itinerary
  the live itinerary, again with the store as it was. A write to the array at that
  address, as an assignment to an element of the live itinerary would be, changes the
  value of the snapshot's data.
\<close>

theorem snapshot_copy_counterexample:
  "liveData (exPlanned\<lparr>savedTrips := []\<rparr>) = Some exData
   \<and> map trip_data (savedTrips (handleSaveTrip 2000 acceptPrompt (exPlanned\<lparr>savedTrips := []\<rparr>)))
       = [exData]
   \<and> heap (handleSaveTrip 2000 acceptPrompt (exPlanned\<lparr>savedTrips := []\<rparr>)) = exHeap
   \<and> liveData exSaved = None
   \<and> liveData (handleLoadTrip True 1000 exSaved) = Some (trip_data exTrip)
   \<and> itinerary (handleLoadTrip True 1000 exSaved) = Some 0
   \<and> heap (handleLoadTrip True 1000 exSaved) = exHeap
   \<and> dataValue exHeap (trip_data exTrip) = Some exDataValue
   \<and> dataValue (writeInPlace exHeap 0 (Arr [])) (trip_data exTrip)
       = Some (exDataValue\<lparr>v_itinerary := []\<rparr>)"
proof -
  have save: "liveData (exPlanned\<lparr>savedTrips := []\<rparr>) = Some exData"
    "map trip_data (savedTrips (handleSaveTrip 2000 acceptPrompt (exPlanned\<lparr>savedTrips := []\<rparr>)))
       = [exData]"
    "heap (handleSaveTrip 2000 acceptPrompt (exPlanned\<lparr>savedTrips := []\<rparr>)) = exHeap"
    by (simp_all add: liveData_def handleSaveTrip_def acceptPrompt_def readArr_def lookup_def
        exPlanned_def exEmpty_def exHeap_def exData_def)
  have load: "liveData exSaved = None"
    "liveData (handleLoadTrip True 1000 exSaved) = Some (trip_data exTrip)"
    "itinerary (handleLoadTrip True 1000 exSaved) = Some 0"
    "heap (handleLoadTrip True 1000 exSaved) = exHeap"
    by (simp_all add: liveData_def handleLoadTrip_def exSaved_def exEmpty_def exTrip_def
        exData_def)
  have before: "dataValue exHeap (trip_data exTrip) = Some exDataValue"
    using exSaved_value by (simp add: exSaved_def exEmpty_def)
  have after: "dataValue (writeInPlace exHeap 0 (Arr [])) (trip_data exTrip)
       = Some (exDataValue\<lparr>v_itinerary := []\<rparr>)"
    by (simp add: writeInPlace_def dataValue_def itineraryValue_def dayValue_def budgetValue_def
        contactsValue_def readArr_def readDay_def readActivity_def readBudgetItem_def
        readContact_def readRates_def lookup_def exHeap_def exTrip_def exData_def
        exDataValue_def)
  show ?thesis using save load before after by simp
qed

text \<open>
  C1, amended: a saved trip shares its arrays and objects with the live aggregate, and
  stays what it is because no handler of \<^verbatim>\<open>App.tsx\<close> writes to an object that exists.
  \<^item> The value that a saved trip's data has in the store stays what it is through every
    sequence of handlers (add or delete a budget item or contact, generate, clear, load,
    save, the setters).
  \<^item> When there is a non-empty itinerary and a name is entered, save appends one trip
    that holds the references of the live aggregate and the form state of that moment,
    and leaves the store as it is: it makes no copy.
  \<^item> A handler that works on the live aggregate leaves the list of saved trips as it is;
    rename keeps the data, form state and id of every trip; delete only removes trips;
    save only appends one trip.
  \<^item> Loading a trip installs the references of its data, and its form state, as the live
    ones; it changes neither the store nor the list of saved trips, and makes no copy.
  \<^item> The independence rests on that discipline alone: a write to the array that a saved
    trip's itinerary refers to changes the itinerary of the saved trip.

  The handlers are those that \<^verbatim>\<open>App.tsx\<close> defines. The child components, to which the
  live arrays are handed, are not part of that file.
\<close>

theorem snapshot_shares_references:
  "(\<forall>t \<in> set (savedTrips s). \<forall>v. dataValue (heap s) (trip_data t) = Some v
        \<longrightarrow> dataValue (heap (steps K as s)) (trip_data t) = Some v)
   \<and> (\<forall>i name. itinerary s = Some i \<and> readArr (heap s) i \<noteq> Some []
          \<and> prompt (destination s @ '' | '' @ startDate s @ '' to '' @ endDate s) = Some name
          \<and> name \<noteq> []
        \<longrightarrow> savedTrips (handleSaveTrip now prompt s)
              = savedTrips s @
                [\<lparr>trip_id = now, trip_name = name, formState = liveForm s,
                  trip_data =
                    \<lparr>data_itinerary = i, data_budgetItems = budgetItems s,
                     data_contacts = contacts s, data_currency = currency s,
                     data_exchangeRates = exchangeRates s\<rparr>\<rparr>]
          \<and> heap (handleSaveTrip now prompt s) = heap s)
   \<and> (case a of
        SaveTrip now p \<Rightarrow>
          savedTrips (step K a s) = savedTrips s
          \<or> (\<exists>t. savedTrips (step K a s) = savedTrips s @ [t] \<and> liveData s = Some (trip_data t)
                 \<and> formState t = liveForm s \<and> trip_id t = now)
      | DeleteTrip c i \<Rightarrow>
          savedTrips (step K a s) = savedTrips s
          \<or> savedTrips (step K a s) = filter (\<lambda>t. trip_id t \<noteq> i) (savedTrips s)
      | UpdateTripName i n \<Rightarrow>
          map trip_data (savedTrips (step K a s)) = map trip_data (savedTrips s)
          \<and> map formState (savedTrips (step K a s)) = map formState (savedTrips s)
          \<and> map trip_id (savedTrips (step K a s)) = map trip_id (savedTrips s)
      | _ \<Rightarrow> savedTrips (step K a s) = savedTrips s)
   \<and> (\<forall>t. find (\<lambda>t. trip_id t = tripId) (savedTrips s) = Some t
        \<longrightarrow> liveData (handleLoadTrip True tripId s) = Some (trip_data t)
          \<and> liveForm (handleLoadTrip True tripId s) = formState t
          \<and> heap (handleLoadTrip True tripId s) = heap s
          \<and> savedTrips (handleLoadTrip True tripId s) = savedTrips s)
   \<and> (\<forall>t \<in> set (savedTrips s). data_itinerary (trip_data t) < length (heap s)
        \<longrightarrow> itineraryValue (writeInPlace (heap s) (data_itinerary (trip_data t)) (Arr []))
              (data_itinerary (trip_data t)) = Some [])"
proof -
  have save: "savedTrips (handleSaveTrip now prompt s)
              = savedTrips s @
                [\<lparr>trip_id = now, trip_name = name, formState = liveForm s,
                  trip_data =
                    \<lparr>data_itinerary = i, data_budgetItems = budgetItems s,
                     data_contacts = contacts s, data_currency = currency s,
                     data_exchangeRates = exchangeRates s\<rparr>\<rparr>]
          \<and> heap (handleSaveTrip now prompt s) = heap s"
    if "itinerary s = Some i" "readArr (heap s) i \<noteq> Some []"
      "prompt (destination s @ '' | '' @ startDate s @ '' to '' @ endDate s) = Some name"
      "name \<noteq> []" for i name
    using that by (simp add: handleSaveTrip_def)
  have inplace: "itineraryValue (writeInPlace h x (Arr [])) x = Some []" if "x < length h"
    for h :: "obj list" and x
    using that by (simp add: itineraryValue_def readArr_def lookup_def writeInPlace_def)
  show ?thesis
    using dataValue_mono [OF heap_steps] history_frame [where a = a and K = K and s = s]
      load_installs save inplace
    by blast
qed

theorem snapshot_shares_references_witness:
  "exTrip \<in> set (savedTrips exSaved)
   \<and> dataValue (heap exSaved) (trip_data exTrip) = Some exDataValue
   \<and> dataValue (heap (steps exConstants
          [LoadTrip True 1000, AddBudgetItem 3000 exBudgetItem, SaveTrip 2000 acceptPrompt,
           DeleteContact 1, ClearItinerary True, Generate, GenerateTimeout exClock] exSaved))
        (trip_data exTrip) = Some exDataValue
   \<and> find (\<lambda>t. trip_id t = 1000) (savedTrips exSaved) = Some exTrip
   \<and> liveData exSaved = None
   \<and> liveData (handleLoadTrip True 1000 exSaved) = Some exData
   \<and> heap (handleLoadTrip True 1000 exSaved) = exHeap
   \<and> savedTrips (handleLoadTrip True 1000 exSaved) = [exTrip]
   \<and> itinerary exPlanned = Some 0
   \<and> readArr (heap exPlanned) 0 = Some [1]
   \<and> acceptPrompt (destination exPlanned @ '' | '' @ startDate exPlanned @ '' to ''
        @ endDate exPlanned) = Some ''Tokyo, Japan | 2024-10-15 to 2024-10-20''
   \<and> savedTrips (handleSaveTrip 2000 acceptPrompt exPlanned)
       = [exTrip,
          \<lparr>trip_id = 2000, trip_name = ''Tokyo, Japan | 2024-10-15 to 2024-10-20'',
            formState = formState exTrip, trip_data = exData\<rparr>]
   \<and> heap (handleSaveTrip 2000 acceptPrompt exPlanned) = exHeap
   \<and> data_itinerary (trip_data exTrip) < length (heap exSaved)
   \<and> itineraryValue (writeInPlace (heap exSaved) (data_itinerary (trip_data exTrip)) (Arr []))
        (data_itinerary (trip_data exTrip)) = Some []"
proof -
  note at_saved = snapshot_shares_references [where s = exSaved and K = exConstants
      and tripId = 1000 and as = "[LoadTrip True 1000, AddBudgetItem 3000 exBudgetItem,
           SaveTrip 2000 acceptPrompt, DeleteContact 1, ClearItinerary True, Generate,
           GenerateTimeout exClock]"]
  note at_planned = snapshot_shares_references [where s = exPlanned and now = 2000
      and prompt = acceptPrompt]
  have a: "exTrip \<in> set (savedTrips exSaved)" "savedTrips exSaved = [exTrip]"
    "heap exSaved = exHeap" "trip_data exTrip = exData" "liveData exSaved = None"
    by (simp_all add: exSaved_def exEmpty_def exTrip_def liveData_def)
  have b: "find (\<lambda>t. trip_id t = 1000) (savedTrips exSaved) = Some exTrip"
    by (simp add: exSaved_def exTrip_def)
  have c: "itinerary exPlanned = Some 0" "readArr (heap exPlanned) 0 = Some [1]"
    "acceptPrompt (destination exPlanned @ '' | '' @ startDate exPlanned @ '' to ''
        @ endDate exPlanned) = Some ''Tokyo, Japan | 2024-10-15 to 2024-10-20''"
    "savedTrips exPlanned = [exTrip]" "heap exPlanned = exHeap"
    "liveForm exPlanned = formState exTrip"
    "budgetItems exPlanned = 5" "contacts exPlanned = 7" "currency exPlanned = USD"
    "exchangeRates exPlanned = 8"
    by (simp_all add: exPlanned_def exEmpty_def exHeap_def exTrip_def readArr_def lookup_def
        acceptPrompt_def liveForm_def)
  have d: "data_itinerary (trip_data exTrip) < length (heap exSaved)"
    by (simp add: exSaved_def exEmpty_def exHeap_def exTrip_def exData_def)
  from at_saved [THEN conjunct1] a(1) exSaved_value
  have kept: "dataValue (heap (steps exConstants
          [LoadTrip True 1000, AddBudgetItem 3000 exBudgetItem, SaveTrip 2000 acceptPrompt,
           DeleteContact 1, ClearItinerary True, Generate, GenerateTimeout exClock] exSaved))
        (trip_data exTrip) = Some exDataValue"
    by blast
  from at_saved [THEN conjunct2, THEN conjunct2, THEN conjunct2, THEN conjunct1] b
  have load: "liveData (handleLoadTrip True 1000 exSaved) = Some exData"
    "heap (handleLoadTrip True 1000 exSaved) = exHeap"
    "savedTrips (handleLoadTrip True 1000 exSaved) = [exTrip]"
    using a by simp_all
  from at_planned [THEN conjunct2, THEN conjunct1] c(1-3)
  have save: "savedTrips (handleSaveTrip 2000 acceptPrompt exPlanned)
       = [exTrip,
          \<lparr>trip_id = 2000, trip_name = ''Tokyo, Japan | 2024-10-15 to 2024-10-20'',
            formState = formState exTrip, trip_data = exData\<rparr>]"
    "heap (handleSaveTrip 2000 acceptPrompt exPlanned) = exHeap"
    using c(4-10) by (simp_all add: exData_def)
  from at_saved [THEN conjunct2, THEN conjunct2, THEN conjunct2, THEN conjunct2] a(1) d
  have inplace: "itineraryValue (writeInPlace (heap exSaved) (data_itinerary (trip_data exTrip)) (Arr []))
        (data_itinerary (trip_data exTrip)) = Some []"
    by blast
  show ?thesis
    using a(1,5) exSaved_value kept b load c(1-3) save d inplace by simp
qed

text \<open>
  C4: for every id that occurs in the saved trips, loading that id (confirmed) and then
  saving (with a name entered) appends a snapshot whose data is the data of the loaded
  trip: the same addresses, read in the same store, hence the same value; the form state
  is the same too. The saved trips are taken to hold a non-empty itinerary each, as
  every trip that \<^verbatim>\<open>handleSaveTrip\<close> creates does (\<open>tripsNonEmpty_step\<close>).
\<close>

theorem restore_then_save:
  assumes present: "tripId \<in> trip_id ` set (savedTrips s)"
    and nonempty: "tripsNonEmpty s"
    and name: "prompt (destination (handleLoadTrip True tripId s) @ '' | ''
                  @ startDate (handleLoadTrip True tripId s) @ '' to ''
                  @ endDate (handleLoadTrip True tripId s)) = Some tripName"
    and "tripName \<noteq> []"
  shows "\<exists>restored new.
      find (\<lambda>t. trip_id t = tripId) (savedTrips s) = Some restored
    \<and> savedTrips (handleSaveTrip now prompt (handleLoadTrip True tripId s)) = savedTrips s @ [new]
    \<and> trip_data new = trip_data restored
    \<and> formState new = formState restored
    \<and> dataValue (heap (handleSaveTrip now prompt (handleLoadTrip True tripId s))) (trip_data new)
        = dataValue (heap s) (trip_data restored)"
proof -
  from present obtain t where f: "find (\<lambda>t. trip_id t = tripId) (savedTrips s) = Some t"
    using find_present [of _ "savedTrips s" "\<lambda>t. trip_id t = tripId"] by auto
  then have "t \<in> set (savedTrips s)" by (simp add: find_in_set)
  with nonempty obtain ds where
    ds: "readArr (heap s) (data_itinerary (trip_data t)) = Some ds" "ds \<noteq> []"
    by (auto simp: tripsNonEmpty_def list_all_iff split: option.splits)
  let ?s1 = "handleLoadTrip True tripId s"
  have l: "heap ?s1 = heap s" "savedTrips ?s1 = savedTrips s" "liveForm ?s1 = formState t"
    "itinerary ?s1 = Some (data_itinerary (trip_data t))"
    "budgetItems ?s1 = data_budgetItems (trip_data t)"
    "contacts ?s1 = data_contacts (trip_data t)"
    "currency ?s1 = data_currency (trip_data t)"
    "exchangeRates ?s1 = data_exchangeRates (trip_data t)"
    using f by (simp_all add: handleLoadTrip_def liveForm_def)
  let ?new = "\<lparr>trip_id = now, trip_name = tripName, formState = formState t,
               trip_data = trip_data t\<rparr>"
  have "savedTrips (handleSaveTrip now prompt ?s1) = savedTrips s @ [?new]"
    using l ds name assms(4) by (simp add: handleSaveTrip_def)
  moreover have "heap (handleSaveTrip now prompt ?s1) = heap s"
    using l by (simp add: handleSaveTrip_def Let_def split: option.splits)
  ultimately show ?thesis using f by auto
qed

theorem restore_then_save_witness:
  "1000 \<in> trip_id ` set (savedTrips exPlanned) \<and> tripsNonEmpty exPlanned
   \<and> acceptPrompt (destination (handleLoadTrip True 1000 exPlanned) @ '' | ''
                  @ startDate (handleLoadTrip True 1000 exPlanned) @ '' to ''
                  @ endDate (handleLoadTrip True 1000 exPlanned))
       = Some ''Tokyo, Japan | 2024-10-15 to 2024-10-20''
   \<and> map trip_data (savedTrips (handleSaveTrip 2000 acceptPrompt (handleLoadTrip True 1000 exPlanned)))
       = [exData, exData]"
proof -
  have a: "1000 \<in> trip_id ` set (savedTrips exPlanned)" by (simp add: exPlanned_def exTrip_def)
  have b: "tripsNonEmpty exPlanned"
    by (simp add: tripsNonEmpty_def readArr_def lookup_def exPlanned_def exEmpty_def exHeap_def
        exTrip_def exData_def)
  have c: "acceptPrompt (destination (handleLoadTrip True 1000 exPlanned) @ '' | ''
                  @ startDate (handleLoadTrip True 1000 exPlanned) @ '' to ''
                  @ endDate (handleLoadTrip True 1000 exPlanned))
       = Some ''Tokyo, Japan | 2024-10-15 to 2024-10-20''"
    by (simp add: acceptPrompt_def handleLoadTrip_def exPlanned_def exEmpty_def exTrip_def)
  have d: "find (\<lambda>t. trip_id t = 1000) (savedTrips exPlanned) = Some exTrip"
    by (simp add: exPlanned_def exTrip_def)
  have e: "savedTrips exPlanned = [exTrip]" "trip_data exTrip = exData"
    by (simp_all add: exPlanned_def exTrip_def)
  from restore_then_save [where s = exPlanned and tripId = 1000 and prompt = acceptPrompt
      and now = 2000 and tripName = "''Tokyo, Japan | 2024-10-15 to 2024-10-20''"]
  show ?thesis
    using a b c d e by auto
qed

section \<open>Generating a plan\<close>

text \<open>
  The copy of the template that the timer's callback builds in the store has, read back
  as a value, the days and activities of the template with the new ids.
\<close>

lemma readActivity_alloc: "readActivity (h @ [ActivityObj x]) (length h) = Some x"
  by (simp add: readActivity_def lookup_def)

lemma readArr_alloc: "readArr (h @ [Arr xs]) (length h) = Some xs"
  by (simp add: readArr_def lookup_def)

lemma readDay_alloc: "readDay (h @ [DayObj x]) (length h) = Some x"
  by (simp add: readDay_def lookup_def)

lemma stampActivities_value:
  assumes "mapM (readActivity h) as = Some acts"
  shows "\<exists>as' h'. stampActivities clk d index as h = Some (as', h') \<and> prefix h h'
    \<and> mapM (readActivity h') as'
        = Some (map (\<lambda>(j, a). a\<lparr>activity_id := activityId d j (clk j)\<rparr>) (enumerate index acts))"
  using assms
proof (induction as arbitrary: index h acts)
  case Nil
  then show ?case by simp
next
  case (Cons a as)
  from Cons.prems obtain act rest where
    act: "readActivity h a = Some act" and rest: "mapM (readActivity h) as = Some rest"
    and acts: "acts = act # rest"
    by (auto split: option.splits)
  let ?new = "act\<lparr>activity_id := activityId d index (clk index)\<rparr>"
  let ?h1 = "h @ [ActivityObj ?new]"
  have p1: "prefix h ?h1" by simp
  have "mapM (readActivity ?h1) as = Some rest"
    by (rule mapM_mono [OF readActivity_mono [OF p1] rest])
  from Cons.IH [OF this, of "Suc index"] obtain as' h' where
    st: "stampActivities clk d (Suc index) as ?h1 = Some (as', h')" and p2: "prefix ?h1 h'"
    and v: "mapM (readActivity h') as'
        = Some (map (\<lambda>(j, a). a\<lparr>activity_id := activityId d j (clk j)\<rparr>) (enumerate (Suc index) rest))"
    by blast
  have r: "readActivity h' (length h) = Some ?new"
    by (rule readActivity_mono [OF p2 readActivity_alloc])
  have "stampActivities clk d index (a # as) h = Some (length h # as', h')"
    using act st by (simp add: alloc_def)
  moreover have "prefix h h'" using p1 p2 by (rule prefix_order.trans)
  moreover have "mapM (readActivity h') (length h # as')
        = Some (map (\<lambda>(j, a). a\<lparr>activity_id := activityId d j (clk j)\<rparr>) (enumerate index acts))"
    using r v by (simp add: acts)
  ultimately show ?case by blast
qed

lemma stampDays_value:
  assumes "mapM (dayValue h) ds = Some tv"
  shows "\<exists>ds' h'. stampDays clk k ds h = Some (ds', h') \<and> prefix h h'
    \<and> mapM (dayValue h') ds'
        = Some (map (\<lambda>(k', (d, acts)). (d, stampedActivities (clk k') d acts)) (enumerate k tv))"
  using assms
proof (induction ds arbitrary: k h tv)
  case Nil
  then show ?case by simp
next
  case (Cons a ds)
  from Cons.prems obtain dv rest where
    dv: "dayValue h a = Some dv" and rest: "mapM (dayValue h) ds = Some rest"
    and tv: "tv = dv # rest"
    by (auto split: option.splits)
  from dv obtain d as acts where
    d: "readDay h a = Some d" and as: "readArr h (activities d) = Some as"
    and acts: "mapM (readActivity h) as = Some acts" and dveq: "dv = (day d, acts)"
    by (auto simp: dayValue_def split: option.splits)
  from stampActivities_value [OF acts, of "clk k" "day d" 0] obtain as' h1 where
    sa: "stampActivities (clk k) (day d) 0 as h = Some (as', h1)" and p1: "prefix h h1"
    and v1: "mapM (readActivity h1) as' = Some (stampedActivities (clk k) (day d) acts)"
    by (auto simp: stampedActivities_def)
  let ?h2 = "h1 @ [Arr as']"
  let ?h3 = "?h2 @ [DayObj (d\<lparr>activities := length h1\<rparr>)]"
  have p2: "prefix h1 ?h2" and p3: "prefix ?h2 ?h3" by simp_all
  have p13: "prefix h1 ?h3" by simp
  have p03: "prefix h ?h3" using p1 p13 by (rule prefix_order.trans)
  have "mapM (dayValue ?h3) ds = Some rest"
    by (rule mapM_mono [OF dayValue_mono [OF p03] rest])
  from Cons.IH [OF this, of "Suc k"] obtain ds' h4 where
    sd: "stampDays clk (Suc k) ds ?h3 = Some (ds', h4)" and p4: "prefix ?h3 h4"
    and v4: "mapM (dayValue h4) ds'
        = Some (map (\<lambda>(k', (d, acts)). (d, stampedActivities (clk k') d acts)) (enumerate (Suc k) rest))"
    by blast
  have a3: "readArr ?h3 (length h1) = Some as'"
    by (rule readArr_mono [OF p3 readArr_alloc])
  have d3: "readDay ?h3 (length ?h2) = Some (d\<lparr>activities := length h1\<rparr>)"
    by (rule readDay_alloc)
  have m3: "mapM (readActivity ?h3) as' = Some (stampedActivities (clk k) (day d) acts)"
    by (rule mapM_mono [OF readActivity_mono [OF p13] v1])
  have "dayValue ?h3 (length ?h2) = Some (day d, stampedActivities (clk k) (day d) acts)"
    unfolding dayValue_def using a3 m3 by (simp only: d3) simp
  then have dv4: "dayValue h4 (length ?h2) = Some (day d, stampedActivities (clk k) (day d) acts)"
    by (rule dayValue_mono [OF p4])
  have "stampDays clk k (a # ds) h = Some (length ?h2 # ds', h4)"
    using d as sa sd by (simp add: alloc_def)
  moreover have "prefix h h4" using p03 p4 by (rule prefix_order.trans)
  moreover have "mapM (dayValue h4) (length ?h2 # ds')
        = Some (map (\<lambda>(k', (d, acts)). (d, stampedActivities (clk k') d acts)) (enumerate k tv))"
    using dv4 v4 by (simp add: tv dveq)
  ultimately show ?case by blast
qed

lemma planWithIds_value:
  assumes "itineraryValue h (polishedTemplate_itinerary K) = Some tmpl"
  shows "\<exists>plan h'. planWithIds K clk h = Some (plan, h') \<and> prefix h h'
    \<and> itineraryValue h' plan = Some (stampedPlan clk tmpl)"
proof -
  from assms obtain ds where ds: "readArr h (polishedTemplate_itinerary K) = Some ds"
    and m: "mapM (dayValue h) ds = Some tmpl"
    by (auto simp: itineraryValue_def split: option.splits)
  from stampDays_value [OF m, of clk 0] obtain ds' h1 where
    sd: "stampDays clk 0 ds h = Some (ds', h1)" and p1: "prefix h h1"
    and v: "mapM (dayValue h1) ds' = Some (stampedPlan clk tmpl)"
    by (auto simp: stampedPlan_def)
  let ?h2 = "h1 @ [Arr ds']"
  have p2: "prefix h1 ?h2" by simp
  have "planWithIds K clk h = Some (length h1, ?h2)"
    using ds sd by (simp add: planWithIds_def alloc_def)
  moreover have "prefix h ?h2" using p1 p2 by (rule prefix_order.trans)
  moreover have "itineraryValue ?h2 (length h1) = Some (stampedPlan clk tmpl)"
    using mapM_mono [OF dayValue_mono [OF p2] v] by (simp add: itineraryValue_def readArr_alloc)
  ultimately show ?thesis by blast
qed

lemma showNat_digit: "n < 10 \<Longrightarrow> showNat n = [digit_char n]"
  by (simp add: showNat.simps [of n])

lemma showNat_more: "10 \<le> n \<Longrightarrow> showNat n = showNat (n div 10) @ [digit_char (n mod 10)]"
  by (simp add: showNat.simps [of n])

lemma exShown:
  "showNat 0 = ''0''" "showNat (Suc 0) = ''1''" "showNat 1700000000000 = ''1700000000000''"
  by (simp_all add: showNat_digit showNat_more digit_char_def)

lemma exStamped:
  "stampedPlan exClock [(Suc 0, [exActivity])]
     = [(Suc 0, [exActivity\<lparr>activity_id := ''activity-1-0-1700000000000''\<rparr>])]"
  by (simp add: stampedPlan_def stampedActivities_def activityId_def exClock_def exShown)

text \<open>
  C9: when the three required fields are filled in, \<^verbatim>\<open>handleGenerate\<close> clears the live
  aggregate at once, before the plan exists: the itinerary is null, budget items and
  contacts are empty arrays, the loading flag is set and the timer is started. Only the
  timer's callback installs the plan: the itinerary is then the template with its
  activity ids stamped, and budget items and contacts are the default ones.
\<close>

theorem generate_clears_then_installs:
  assumes "destination s \<noteq> []" and "startDate s \<noteq> []" and "endDate s \<noteq> []"
  shows "snd (handleGenerate s)
    \<and> itinerary (fst (handleGenerate s)) = None
    \<and> budgetValue (heap (fst (handleGenerate s))) (budgetItems (fst (handleGenerate s))) = Some []
    \<and> contactsValue (heap (fst (handleGenerate s))) (contacts (fst (handleGenerate s))) = Some []
    \<and> isLoading (fst (handleGenerate s))
    \<and> (\<forall>tmpl. itineraryValue (heap s) (polishedTemplate_itinerary K) = Some tmpl \<longrightarrow>
         (\<exists>plan. itinerary (handleGenerateTimeout K clk (fst (handleGenerate s))) = Some plan
            \<and> itineraryValue (heap (handleGenerateTimeout K clk (fst (handleGenerate s)))) plan
                = Some (stampedPlan clk tmpl))
         \<and> budgetItems (handleGenerateTimeout K clk (fst (handleGenerate s))) = defaultBudgetItems K
         \<and> contacts (handleGenerateTimeout K clk (fst (handleGenerate s))) = defaultContacts K
         \<and> \<not> isLoading (handleGenerateTimeout K clk (fst (handleGenerate s))))"
proof -
  let ?s1 = "fst (handleGenerate s)"
  have s1: "?s1 = s\<lparr>isLoading := True, error := None, itinerary := None,
                budgetItems := length (heap s), contacts := Suc (length (heap s)),
                heap := heap s @ [Arr [], Arr []]\<rparr>" and t: "snd (handleGenerate s)"
    using assms by (simp_all add: handleGenerate_def alloc_def)
  have b: "budgetValue (heap ?s1) (budgetItems ?s1) = Some []"
    by (simp add: s1 budgetValue_def readArr_def lookup_def nth_append)
  have c: "contactsValue (heap ?s1) (contacts ?s1) = Some []"
    by (simp add: s1 contactsValue_def readArr_def lookup_def nth_append)
  have p: "prefix (heap s) (heap ?s1)" by (simp add: s1)
  have "\<exists>plan. itinerary (handleGenerateTimeout K clk ?s1) = Some plan
            \<and> itineraryValue (heap (handleGenerateTimeout K clk ?s1)) plan
                = Some (stampedPlan clk tmpl)"
    and "budgetItems (handleGenerateTimeout K clk ?s1) = defaultBudgetItems K"
    and "contacts (handleGenerateTimeout K clk ?s1) = defaultContacts K"
    and "\<not> isLoading (handleGenerateTimeout K clk ?s1)"
    if "itineraryValue (heap s) (polishedTemplate_itinerary K) = Some tmpl" for tmpl
  proof -
    from planWithIds_value [OF itineraryValue_mono [OF p that], of clk] obtain plan h' where
      "planWithIds K clk (heap ?s1) = Some (plan, h')"
      "itineraryValue h' plan = Some (stampedPlan clk tmpl)"
      by blast
    then show "\<exists>plan. itinerary (handleGenerateTimeout K clk ?s1) = Some plan
            \<and> itineraryValue (heap (handleGenerateTimeout K clk ?s1)) plan
                = Some (stampedPlan clk tmpl)"
      and "budgetItems (handleGenerateTimeout K clk ?s1) = defaultBudgetItems K"
      and "contacts (handleGenerateTimeout K clk ?s1) = defaultContacts K"
      and "\<not> isLoading (handleGenerateTimeout K clk ?s1)"
      by (simp_all add: handleGenerateTimeout_def)
  qed
  then show ?thesis using t b c by (simp add: s1)
qed

theorem generate_clears_then_installs_witness:
  "destination exPlanned \<noteq> [] \<and> startDate exPlanned \<noteq> [] \<and> endDate exPlanned \<noteq> []
   \<and> itinerary exPlanned = Some 0
   \<and> itinerary (fst (handleGenerate exPlanned)) = None
   \<and> budgetValue (heap (fst (handleGenerate exPlanned))) (budgetItems (fst (handleGenerate exPlanned)))
       = Some []
   \<and> itineraryValue (heap exPlanned) (polishedTemplate_itinerary exConstants)
       = Some [(Suc 0, [exActivity])]
   \<and> (\<exists>plan. itinerary (handleGenerateTimeout exConstants exClock (fst (handleGenerate exPlanned)))
                = Some plan
         \<and> itineraryValue (heap (handleGenerateTimeout exConstants exClock (fst (handleGenerate exPlanned))))
              plan
            = Some [(Suc 0, [exActivity\<lparr>activity_id := ''activity-1-0-1700000000000''\<rparr>])])
   \<and> budgetItems (handleGenerateTimeout exConstants exClock (fst (handleGenerate exPlanned)))
       = defaultBudgetItems exConstants"
proof -
  have a: "destination exPlanned \<noteq> []" "startDate exPlanned \<noteq> []" "endDate exPlanned \<noteq> []"
    "itinerary exPlanned = Some 0"
    by (simp_all add: exPlanned_def exEmpty_def)
  have b: "itineraryValue (heap exPlanned) (polishedTemplate_itinerary exConstants)
       = Some [(Suc 0, [exActivity])]"
    by (simp add: itineraryValue_def dayValue_def readArr_def readDay_def readActivity_def
        lookup_def exPlanned_def exEmpty_def exHeap_def exConstants_def)
  note g = generate_clears_then_installs [OF a(1-3), of exConstants exClock]
  note c = g [THEN conjunct2, THEN conjunct1]
  note d = g [THEN conjunct2, THEN conjunct2, THEN conjunct1]
  note r = g [THEN conjunct2, THEN conjunct2, THEN conjunct2, THEN conjunct2, THEN conjunct2,
      THEN spec, THEN mp, OF b]
  note e = r [THEN conjunct1, unfolded exStamped]
  note f = r [THEN conjunct2, THEN conjunct1]
  show ?thesis
    by (intro conjI) (rule a b c d e f)+
qed

section \<open>Rounding to a double\<close>

text \<open>
  \<open>fl\<close> does not decrease when its argument grows, and it leaves the integers below
  \<open>2 ^ 53\<close> as they are.
\<close>

lemma bitlength_bounds: "0 < n \<Longrightarrow> 2 ^ (bitlength n - 1) \<le> n \<and> n < 2 ^ bitlength n"
proof (induction n rule: bitlength.induct)
  case (1 n)
  show ?case
  proof (cases "n div 2 = 0")
    case True
    with "1.prems" have "n = 1" by (simp add: div_eq_0_iff)
    then show ?thesis by (simp add: bitlength.simps [of "Suc 0"] bitlength.simps [of 0])
  next
    case False
    with "1.IH" "1.prems" have ih: "2 ^ (bitlength (n div 2) - 1) \<le> n div 2" "n div 2 < 2 ^ bitlength (n div 2)"
      by auto
    have pos: "0 < bitlength (n div 2)" using False by (simp add: bitlength.simps [of "n div 2"])
    have eq: "bitlength n = Suc (bitlength (n div 2))" using "1.prems" by (simp add: bitlength.simps [of n])
    from pos obtain k where k: "bitlength (n div 2) = Suc k" by (cases "bitlength (n div 2)") auto
    have "2 * 2 ^ k \<le> n" using ih(1) k by simp
    moreover have "n < 2 * 2 ^ Suc k" using ih(2) k by simp
    ultimately show ?thesis by (simp add: eq k)
  qed
qed


lemma pow_le_of_nat: "2 ^ k \<le> (n::nat) \<Longrightarrow> (2::rat) ^ k \<le> of_nat n"
  by (metis of_nat_le_iff of_nat_numeral of_nat_power)

lemma of_nat_less_pow: "(n::nat) < 2 ^ k \<Longrightarrow> (of_nat n :: rat) + 1 \<le> 2 ^ k"
proof -
  assume "n < 2 ^ k"
  then have "Suc n \<le> 2 ^ k" by simp
  then have "(of_nat (Suc n) :: rat) \<le> of_nat (2 ^ k)" by (simp only: of_nat_le_iff)
  then show ?thesis by (simp add: add.commute)
qed

lemma ilog2_bounds:
  assumes "0 < x"
  shows "2 powi (ilog2 x) \<le> x \<and> x < 2 powi (ilog2 x + 1)"
proof (cases "1 \<le> x")
  case True
  let ?n = "nat \<lfloor>x\<rfloor>"
  have f1: "1 \<le> \<lfloor>x\<rfloor>" using True by linarith
  then have n: "0 < ?n" by simp
  have nf: "(of_nat ?n :: rat) = of_int \<lfloor>x\<rfloor>" using f1 by simp
  have fl: "of_nat ?n \<le> x" "x < of_nat ?n + 1"
    unfolding nf by linarith+
  from bitlength_bounds [OF n] have b: "2 ^ (bitlength ?n - 1) \<le> ?n" "?n < 2 ^ bitlength ?n" by auto
  have pos: "0 < bitlength ?n" using n by (simp add: bitlength.simps [of ?n])
  have e: "ilog2 x = int (bitlength ?n - 1)" using True pos by (simp add: ilog2_def)
  have e1: "ilog2 x + 1 = int (bitlength ?n)" using e pos by simp
  have "(2::rat) ^ (bitlength ?n - 1) \<le> x"
    using pow_le_of_nat [OF b(1)] fl(1) by (rule order_trans)
  then have lo: "2 powi (ilog2 x) \<le> x" unfolding e by (simp only: power_int_of_nat)
  have "x < 2 ^ bitlength ?n" using of_nat_less_pow [OF b(2)] fl(2) by linarith
  then have "x < 2 powi (ilog2 x + 1)" unfolding e1 by (simp only: power_int_of_nat)
  with lo show ?thesis by simp
next
  case False
  then have x1: "x < 1" by simp
  let ?y = "1 / x"
  have y1: "1 < ?y" using assms x1 by simp
  let ?n = "nat (\<lceil>?y\<rceil> - 1)"
  have c: "2 \<le> \<lceil>?y\<rceil>" using y1 by linarith
  then have n: "0 < ?n" by linarith
  have "0 \<le> \<lceil>?y\<rceil> - 1" using c by linarith
  then have "(of_nat ?n :: rat) = of_int (\<lceil>?y\<rceil> - 1)" by (rule of_nat_nat)
  then have nf: "(of_nat ?n :: rat) = of_int \<lceil>?y\<rceil> - 1" by (simp only: of_int_diff of_int_1)
  have ny: "of_nat ?n < ?y" "?y \<le> of_nat ?n + 1"
    unfolding nf by linarith+
  from bitlength_bounds [OF n] have b: "2 ^ (bitlength ?n - 1) \<le> ?n" "?n < 2 ^ bitlength ?n" by auto
  have pos: "0 < bitlength ?n" using n by (simp add: bitlength.simps [of ?n])
  have e: "ilog2 x = - int (bitlength ?n)" using False by (simp add: ilog2_def)
  have e1: "ilog2 x + 1 = - int (bitlength ?n - 1)" using e pos by simp
  have "?y \<le> 2 ^ bitlength ?n" using of_nat_less_pow [OF b(2)] ny(2) by linarith
  then have "1 \<le> x * 2 ^ bitlength ?n" using assms by (simp add: field_simps)
  then have "1 / 2 ^ bitlength ?n \<le> x" by (simp add: field_simps)
  then have lo: "2 powi (ilog2 x) \<le> x"
    unfolding e by (simp add: power_int_minus power_int_of_nat field_simps)
  have "2 ^ (bitlength ?n - 1) < ?y" using pow_le_of_nat [OF b(1)] ny(1) by linarith
  then have "x * 2 ^ (bitlength ?n - 1) < 1" using assms by (simp add: field_simps)
  then have "x < 1 / 2 ^ (bitlength ?n - 1)" by (simp add: field_simps)
  then have "x < 2 powi (ilog2 x + 1)"
    unfolding e1 by (simp add: power_int_minus power_int_of_nat field_simps)
  with lo show ?thesis by simp
qed


lemma rne_of_int: "rne (of_int n) = n"
  by (simp add: rne_def)

lemma rne_range: "rne y = \<lfloor>y\<rfloor> \<or> rne y = \<lfloor>y\<rfloor> + 1"
  by (simp add: rne_def Let_def)

lemma rne_mono:
  assumes "y \<le> z"
  shows "rne y \<le> rne z"
proof (cases "\<lfloor>y\<rfloor> = \<lfloor>z\<rfloor>")
  case True
  have "y - of_int \<lfloor>z\<rfloor> \<le> z - of_int \<lfloor>z\<rfloor>" using assms by simp
  then show ?thesis unfolding rne_def Let_def True by auto
next
  case False
  have "\<lfloor>y\<rfloor> \<le> \<lfloor>z\<rfloor>" using assms by (rule floor_mono)
  with False have "\<lfloor>y\<rfloor> + 1 \<le> \<lfloor>z\<rfloor>" by simp
  then show ?thesis using rne_range [of y] rne_range [of z] by auto
qed

lemma rne_ge: "of_int n \<le> y \<Longrightarrow> n \<le> rne y"
  using rne_mono [of "of_int n" y] by (simp add: rne_of_int)

lemma rne_le: "y \<le> of_int n \<Longrightarrow> rne y \<le> n"
  using rne_mono [of y "of_int n"] by (simp add: rne_of_int)

lemma fl_pos: "0 < x \<Longrightarrow> fl x = of_int (rne (x * 2 powi (52 - ilog2 x))) * 2 powi (ilog2 x - 52)"
  by (simp add: fl_def)

lemma fl_0: "fl 0 = 0"
  by (simp add: fl_def)

lemma scaled_bounds:
  assumes "0 < x"
  shows "2 ^ 52 \<le> x * 2 powi (52 - ilog2 x) \<and> x * 2 powi (52 - ilog2 x) \<le> 2 ^ 53"
proof -
  from ilog2_bounds [OF assms] have b: "2 powi (ilog2 x) \<le> x" "x < 2 powi (ilog2 x + 1)" by auto
  have p: "(0::rat) < 2 powi (52 - ilog2 x)" by simp
  have "2 powi (ilog2 x) * 2 powi (52 - ilog2 x) \<le> x * 2 powi (52 - ilog2 x)"
    using b(1) p by (simp only: mult_le_cancel_right_pos)
  moreover have "(2::rat) powi (ilog2 x) * 2 powi (52 - ilog2 x) = 2 powi 52"
    by (simp flip: power_int_add)
  moreover have "x * 2 powi (52 - ilog2 x) \<le> 2 powi (ilog2 x + 1) * 2 powi (52 - ilog2 x)"
    using b(2) p by (simp only: mult_le_cancel_right_pos less_imp_le)
  moreover have "(2::rat) powi (ilog2 x + 1) * 2 powi (52 - ilog2 x) = 2 powi 53"
    by (simp flip: power_int_add)
  ultimately show ?thesis by (simp add: power_int_def)
qed

lemma pow2_shift: "(2::rat) powi a * 2 powi (b - a) = 2 powi b"
  by (simp flip: power_int_add)

lemma fl_bounds:
  assumes "0 < x"
  shows "2 powi (ilog2 x) \<le> fl x \<and> fl x \<le> 2 powi (ilog2 x + 1)"
proof -
  let ?m = "rne (x * 2 powi (52 - ilog2 x))"
  let ?s = "(2::rat) powi (ilog2 x - 52)"
  from scaled_bounds [OF assms] have "of_int (2 ^ 52) \<le> x * 2 powi (52 - ilog2 x)"
    and "x * 2 powi (52 - ilog2 x) \<le> of_int (2 ^ 53)" by simp_all
  then have "2 ^ 52 \<le> ?m" "?m \<le> 2 ^ 53" by (simp_all only: rne_ge rne_le)
  then have "(of_int (2 ^ 52) :: rat) \<le> of_int ?m" "(of_int ?m :: rat) \<le> of_int (2 ^ 53)"
    by (simp_all only: of_int_le_iff)
  then have m: "(2::rat) powi 52 \<le> of_int ?m" "(of_int ?m :: rat) \<le> 2 powi 53"
    by (simp_all add: power_int_def)
  have p: "0 < ?s" by simp
  have "(2::rat) powi 52 * ?s \<le> of_int ?m * ?s"
    using m(1) p by (simp only: mult_le_cancel_right_pos)
  moreover have "(2::rat) powi 52 * ?s = 2 powi (ilog2 x)" by (rule pow2_shift)
  moreover have "of_int ?m * ?s \<le> (2::rat) powi 53 * ?s"
    using m(2) p by (simp only: mult_le_cancel_right_pos)
  moreover have "(2::rat) powi 53 * 2 powi (ilog2 x + 1 - 53) = 2 powi (ilog2 x + 1)"
    by (rule pow2_shift)
  moreover have "ilog2 x + 1 - 53 = ilog2 x - 52" by simp
  ultimately have "2 powi (ilog2 x) \<le> of_int ?m * ?s" "of_int ?m * ?s \<le> 2 powi (ilog2 x + 1)"
    by (simp_all only:)
  then show ?thesis by (simp only: fl_pos [OF assms])
qed

lemma pow2_lessD: "(2::rat) powi m < 2 powi n \<Longrightarrow> m < n"
proof (rule ccontr)
  assume a: "(2::rat) powi m < 2 powi n" and "\<not> m < n"
  then have "n \<le> m" by simp
  then have "(2::rat) powi n \<le> 2 powi m" by (rule power_int_increasing) simp
  with a show False by simp
qed

lemma ilog2_mono:
  assumes "0 < x" and "x \<le> y"
  shows "ilog2 x \<le> ilog2 y"
proof -
  have y: "0 < y" using assms by simp
  from ilog2_bounds [OF assms(1)] ilog2_bounds [OF y] assms(2)
  have "(2::rat) powi (ilog2 x) < 2 powi (ilog2 y + 1)" by linarith
  then have "ilog2 x < ilog2 y + 1" by (rule pow2_lessD)
  then show ?thesis by simp
qed

lemma fl_mono:
  assumes "0 \<le> x" and "x \<le> y"
  shows "fl x \<le> fl y"
proof (cases "x = 0")
  case True
  show ?thesis
  proof (cases "y = 0")
    case True
    with \<open>x = 0\<close> show ?thesis by simp
  next
    case False
    then have "0 < y" using assms True by simp
    from fl_bounds [OF this] have "0 < fl y"
      by (meson less_le_trans zero_less_numeral zero_less_power_int)
    then show ?thesis using True by (simp add: fl_0)
  qed
next
  case False
  then have x: "0 < x" using assms by simp
  then have y: "0 < y" using assms by simp
  have le: "ilog2 x \<le> ilog2 y" using x assms(2) by (rule ilog2_mono)
  show ?thesis
  proof (cases "ilog2 x = ilog2 y")
    case True
    have p: "(0::rat) < 2 powi (52 - ilog2 y)" by simp
    have "x * 2 powi (52 - ilog2 y) \<le> y * 2 powi (52 - ilog2 y)"
      using assms(2) p by (simp only: mult_le_cancel_right_pos)
    then have "rne (x * 2 powi (52 - ilog2 y)) \<le> rne (y * 2 powi (52 - ilog2 y))" by (rule rne_mono)
    then show ?thesis by (simp add: fl_pos [OF x] fl_pos [OF y] True)
  next
    case False
    with le have "ilog2 x + 1 \<le> ilog2 y" by simp
    then have "(2::rat) powi (ilog2 x + 1) \<le> 2 powi (ilog2 y)"
      by (simp add: power_int_increasing)
    with fl_bounds [OF x] fl_bounds [OF y] show ?thesis by linarith
  qed
qed

lemma fl_of_nat:
  assumes "n < 2 ^ 53"
  shows "fl (of_nat n) = of_nat n"
proof (cases "n = 0")
  case True
  then show ?thesis by (simp add: fl_0)
next
  case False
  let ?x = "of_nat n :: rat"
  have x: "0 < ?x" using False by simp
  have "?x + 1 \<le> 2 ^ 53" using assms by (rule of_nat_less_pow)
  then have "?x < 2 powi 53" by (simp add: power_int_def)
  with ilog2_bounds [OF x] have "(2::rat) powi (ilog2 ?x) < 2 powi 53" by linarith
  then have "ilog2 ?x < 53" by (rule pow2_lessD)
  then have "0 \<le> 52 - ilog2 ?x" by simp
  then obtain k where k: "52 - ilog2 ?x = int k" by (rule nonneg_int_cases)
  then have k': "ilog2 ?x - 52 = - int k" by simp
  have "?x * 2 powi (52 - ilog2 ?x) = of_int (int n * 2 ^ k)"
    by (simp add: k power_int_of_nat)
  then have "rne (?x * 2 powi (52 - ilog2 ?x)) = int n * 2 ^ k" by (simp only: rne_of_int)
  then show ?thesis by (simp add: fl_pos [OF x] k' power_int_minus)
qed

lemma fl_nonneg: "0 \<le> x \<Longrightarrow> 0 \<le> fl x"
  using fl_mono [of 0 x] by (simp add: fl_0)

lemma fl_numeral: "numeral k < (2 ^ 53 :: nat) \<Longrightarrow> fl (numeral k) = numeral k"
  using fl_of_nat [of "numeral k"] by simp

lemma fl_ge_numeral:
  assumes "numeral k < (2 ^ 53 :: nat)" and "numeral k \<le> x"
  shows "numeral k \<le> fl x"
  using fl_mono [of "numeral k" x] assms by (simp add: fl_numeral)

lemma bitlength_0: "bitlength 0 = 0"
  by (simp add: bitlength.simps [of 0])

lemma bitlength_pos: "0 < n \<Longrightarrow> bitlength n = Suc (bitlength (n div 2))"
  by (simp add: bitlength.simps [of n])

lemma floor_rat_numeral: "\<lfloor>(numeral a :: rat) / numeral b\<rfloor> = numeral a div numeral b"
  by (metis floor_divide_of_int_eq of_int_numeral)

lemma ceiling_rat_numeral: "\<lceil>(numeral a :: rat) / numeral b\<rceil> = - (- numeral a div numeral b)"
  by (metis ceiling_def divide_minus_left floor_divide_of_int_eq of_int_minus of_int_numeral)

lemmas fl_eval = fl_def ilog2_def rne_def Let_def bitlength_0 bitlength_pos
  floor_rat_numeral ceiling_rat_numeral power_int_minus divide_simps

section \<open>Pagination\<close>

lemma imgHeight_nonneg: "0 \<le> imgHeight p"
  by (simp add: imgHeight_def fdiv_def fmul_def CONTENT_WIDTH_def A4_WIDTH_def MARGIN_def
      fl_nonneg)

lemma advance:
  assumes "MARGIN \<le> y" and "0 \<le> h"
  shows "MARGIN + 2 \<le> fadd y (fadd h 2)"
proof -
  have "2 \<le> fadd h 2" unfolding fadd_def using assms(2) by (intro fl_ge_numeral) simp_all
  then have "17 \<le> y + fadd h 2" using assms(1) by (simp add: MARGIN_def)
  then have "17 \<le> fadd y (fadd h 2)" unfolding fadd_def [of y] by (intro fl_ge_numeral) simp_all
  then show ?thesis by (simp add: MARGIN_def)
qed

lemma advance_tall:
  assumes "MARGIN \<le> y" and "A4_HEIGHT - MARGIN * 2 < h"
  shows "A4_HEIGHT - MARGIN + 2 \<le> fadd y (fadd h 2)"
proof -
  have "269 \<le> fadd h 2" unfolding fadd_def using assms(2)
    by (intro fl_ge_numeral) (simp_all add: A4_HEIGHT_def MARGIN_def)
  then have "284 \<le> y + fadd h 2" using assms(1) by (simp add: MARGIN_def)
  then have "284 \<le> fadd y (fadd h 2)" unfolding fadd_def [of y] by (intro fl_ge_numeral) simp_all
  then show ?thesis by (simp add: MARGIN_def A4_HEIGHT_def)
qed

lemma tall_breaks:
  assumes "MARGIN + 2 \<le> y" and "A4_HEIGHT - MARGIN * 2 < h"
  shows "A4_HEIGHT - MARGIN < fadd y h"
proof -
  have "284 \<le> y + h" using assms by (simp add: MARGIN_def A4_HEIGHT_def)
  then have "284 \<le> fadd y h" unfolding fadd_def by (intro fl_ge_numeral) simp_all
  then show ?thesis by (simp add: MARGIN_def A4_HEIGHT_def)
qed

lemma beyond_breaks:
  assumes "A4_HEIGHT - MARGIN + 2 \<le> y" and "0 \<le> h"
  shows "A4_HEIGHT - MARGIN < fadd y h"
proof -
  have "284 \<le> y + h" using assms by (simp add: MARGIN_def A4_HEIGHT_def)
  then have "284 \<le> fadd y h" unfolding fadd_def by (intro fl_ge_numeral) simp_all
  then show ?thesis by (simp add: MARGIN_def A4_HEIGHT_def)
qed

lemma gap_keeps:
  assumes "numeral k < (2 ^ 53 :: nat)" and "numeral k \<le> y" and "0 \<le> d"
  shows "numeral k \<le> fadd y d"
  unfolding fadd_def using assms by (intro fl_ge_numeral) simp_all

lemma onPage_later: "\<forall>q \<in> set imgs. img_page q \<le> n \<Longrightarrow> onPage (Suc n) imgs = []"
  by (auto simp: onPage_def filter_empty_conv)

lemma onPage_append: "onPage n (xs @ ys) = onPage n xs @ onPage n ys"
  by (simp add: onPage_def)

lemma onPage_single: "onPage n [q] = (if img_page q = n then [q] else [])"
  by (simp add: onPage_def)

lemma addCanvas_inv:
  assumes inv: "pageInv pdf"
  shows "\<exists>pdf'. addCanvasToPdf (Renders p) pdf = Inr pdf' \<and> pageInv pdf'
     \<and> map img_h (images pdf') = map img_h (images pdf) @ [imgHeight p]
     \<and> MARGIN + 2 \<le> yPos pdf'"
proof -
  let ?h = "imgHeight p"
  have h: "0 \<le> ?h" by (rule imgHeight_nonneg)
  have y: "yPos pdf = MARGIN \<or> MARGIN + 2 \<le> yPos pdf" using inv by (simp add: pageInv_def)
  then have y0: "MARGIN \<le> yPos pdf" by auto
  have old: "\<forall>q \<in> set (images pdf).
      img_x q = MARGIN \<and> img_w q = CONTENT_WIDTH \<and> 1 \<le> img_page q
      \<and> img_page q \<le> pages pdf \<and> MARGIN \<le> img_y q \<and> 0 \<le> img_h q"
    using inv by (simp add: pageInv_def)
  have tall: "img_y q = MARGIN \<and> onPage (img_page q) (images pdf) = [q]
      \<and> (img_page q = pages pdf \<longrightarrow> A4_HEIGHT - MARGIN + 2 \<le> yPos pdf)"
    if "q \<in> set (images pdf)" "A4_HEIGHT - MARGIN * 2 < img_h q" for q
    using inv that by (simp add: pageInv_def)
  show ?thesis
  proof (cases "fadd (yPos pdf) ?h > A4_HEIGHT - MARGIN \<and> yPos pdf > MARGIN")
    case True
    let ?q = "\<lparr>img_page = pages pdf + 1, img_x = MARGIN, img_y = MARGIN,
               img_w = CONTENT_WIDTH, img_h = ?h\<rparr>"
    let ?pdf' = "pdf\<lparr>pages := pages pdf + 1, images := images pdf @ [?q],
                   yPos := fadd MARGIN (fadd ?h 2)\<rparr>"
    have eq: "addCanvasToPdf (Renders p) pdf = Inr ?pdf'"
      using True by (simp add: addCanvasToPdf_def addPage_def Let_def)
    have y': "MARGIN + 2 \<le> fadd MARGIN (fadd ?h 2)" using h by (intro advance) simp_all
    have empty: "onPage (Suc (pages pdf)) (images pdf) = []"
      using old by (intro onPage_later) simp
    have keep: "onPage (img_page q) (images pdf @ [?q]) = onPage (img_page q) (images pdf)"
      if "q \<in> set (images pdf)" for q
      using old that by (auto simp: onPage_append onPage_single)
    have "pageInv ?pdf'"
      unfolding pageInv_def
    proof (intro conjI ballI impI)
      fix q assume q: "q \<in> set (images ?pdf')" and big: "A4_HEIGHT - MARGIN * 2 < img_h q"
      show "img_y q = MARGIN" using q big tall by auto
      show "onPage (img_page q) (images ?pdf') = [q]"
      proof (cases "q \<in> set (images pdf)")
        case True
        then show ?thesis using keep [OF True] tall [OF True big] by simp
      next
        case False
        then have "q = ?q" using q by simp
        then show ?thesis using empty by (simp add: onPage_append onPage_single)
      qed
      show "A4_HEIGHT - MARGIN + 2 \<le> yPos ?pdf'" if cur: "img_page q = pages ?pdf'"
      proof (cases "q \<in> set (images pdf)")
        case True
        then show ?thesis using old cur by auto
      next
        case False
        then have "q = ?q" using q by simp
        then have "A4_HEIGHT - MARGIN * 2 < ?h" using big by simp
        then show ?thesis using advance_tall [of MARGIN ?h] by simp
      qed
    next
      assume "yPos ?pdf' = MARGIN"
      then show "onPage (pages ?pdf') (images ?pdf') = []" using y' by simp
    qed (use old h y' in \<open>auto simp: le_Suc_eq\<close>)
    moreover have "MARGIN + 2 \<le> yPos ?pdf'" using y' by simp
    ultimately show ?thesis using eq by auto
  next
    case False
    let ?q = "\<lparr>img_page = pages pdf, img_x = MARGIN, img_y = yPos pdf,
               img_w = CONTENT_WIDTH, img_h = ?h\<rparr>"
    let ?pdf' = "pdf\<lparr>images := images pdf @ [?q], yPos := fadd (yPos pdf) (fadd ?h 2)\<rparr>"
    have eq: "addCanvasToPdf (Renders p) pdf = Inr ?pdf'"
      using False by (auto simp: addCanvasToPdf_def Let_def)
    have y': "MARGIN + 2 \<le> fadd (yPos pdf) (fadd ?h 2)" using y0 h by (rule advance)
    have nobig: "img_page q \<noteq> pages pdf"
      if "q \<in> set (images pdf)" "A4_HEIGHT - MARGIN * 2 < img_h q" for q
    proof
      assume "img_page q = pages pdf"
      with tall [OF that] have b: "A4_HEIGHT - MARGIN + 2 \<le> yPos pdf" by simp
      then have "A4_HEIGHT - MARGIN < fadd (yPos pdf) ?h" using h by (rule beyond_breaks)
      moreover have "MARGIN < yPos pdf" using b by (simp add: MARGIN_def A4_HEIGHT_def)
      ultimately show False using False by simp
    qed
    have newbig: "yPos pdf = MARGIN" if t: "A4_HEIGHT - MARGIN * 2 < ?h"
    proof (rule ccontr)
      assume "yPos pdf \<noteq> MARGIN"
      with y have b: "MARGIN + 2 \<le> yPos pdf" by simp
      then have "A4_HEIGHT - MARGIN < fadd (yPos pdf) ?h" using t by (rule tall_breaks)
      moreover have "MARGIN < yPos pdf" using b by simp
      ultimately show False using False by simp
    qed
    have "pageInv ?pdf'"
      unfolding pageInv_def
    proof (intro conjI ballI impI)
      fix q assume q: "q \<in> set (images ?pdf')" and big: "A4_HEIGHT - MARGIN * 2 < img_h q"
      show "img_y q = MARGIN"
        using q big tall newbig by auto
      show "onPage (img_page q) (images ?pdf') = [q]"
      proof (cases "q \<in> set (images pdf)")
        case True
        then have "img_page q \<noteq> pages pdf" using big by (rule nobig)
        moreover have "onPage (img_page q) (images pdf) = [q]"
          using tall [OF True big] by simp
        ultimately show ?thesis by (simp add: onPage_append onPage_single)
      next
        case False
        then have qeq: "q = ?q" using q by simp
        then have "yPos pdf = MARGIN" using big newbig by simp
        then have "onPage (pages pdf) (images pdf) = []" using inv by (simp add: pageInv_def)
        then show ?thesis by (simp add: qeq onPage_append onPage_single)
      qed
      show "A4_HEIGHT - MARGIN + 2 \<le> yPos ?pdf'" if cur: "img_page q = pages ?pdf'"
      proof (cases "q \<in> set (images pdf)")
        case True
        then show ?thesis using nobig [OF True big] cur by simp
      next
        case False
        then have qeq: "q = ?q" using q by simp
        then have "A4_HEIGHT - MARGIN * 2 < ?h" using big by simp
        then show ?thesis using advance_tall [OF y0] by simp
      qed
    next
      assume "yPos ?pdf' = MARGIN"
      then show "onPage (pages ?pdf') (images ?pdf') = []" using y' by simp
    qed (use old y0 h y' inv in \<open>auto simp: pageInv_def\<close>)
    moreover have "MARGIN + 2 \<le> yPos ?pdf'" using y' by simp
    ultimately show ?thesis using eq by auto
  qed
qed

lemma gap_inv:
  assumes inv: "pageInv pdf" and y: "MARGIN + 2 \<le> yPos pdf"
  shows "pageInv (pdf\<lparr>yPos := fadd (yPos pdf) 8\<rparr>)"
proof -
  have a: "MARGIN + 2 \<le> fadd (yPos pdf) 8"
    using gap_keeps [of "num.Bit1 (num.Bit0 (num.Bit0 (num.Bit0 num.One)))" "yPos pdf" 8] y
    by (simp add: MARGIN_def)
  have b: "A4_HEIGHT - MARGIN + 2 \<le> fadd (yPos pdf) 8" if "A4_HEIGHT - MARGIN + 2 \<le> yPos pdf"
  proof -
    have "284 \<le> yPos pdf" using that by (simp add: MARGIN_def A4_HEIGHT_def)
    then have "284 \<le> fadd (yPos pdf) 8" by (intro gap_keeps) simp_all
    then show ?thesis by (simp add: MARGIN_def A4_HEIGHT_def)
  qed
  have c: "fadd (yPos pdf) 8 \<noteq> MARGIN" using a by simp
  show ?thesis
    unfolding pageInv_def using inv a b c by (auto simp: pageInv_def)
qed

lemma headerFit_inv:
  assumes inv: "pageInv pdf"
  shows "pageInv (headerFit pdf) \<and> images (headerFit pdf) = images pdf"
proof (cases "fadd (yPos pdf) 20 > A4_HEIGHT - MARGIN")
  case True
  have old: "\<forall>q \<in> set (images pdf). img_page q \<le> pages pdf"
    using inv by (simp add: pageInv_def)
  then have empty: "onPage (Suc (pages pdf)) (images pdf) = []" by (rule onPage_later)
  have "pageInv (pdf\<lparr>pages := Suc (pages pdf), yPos := MARGIN\<rparr>)"
    unfolding pageInv_def using inv empty by (auto simp: pageInv_def le_Suc_eq)
  then show ?thesis using True by (simp add: headerFit_def addPage_def)
next
  case False
  then show ?thesis using inv by (simp add: headerFit_def)
qed

lemma addTitle_inv:
  assumes inv: "pageInv pdf" and r: "\<forall>e \<in> set_option t. rendered e"
  shows "\<exists>pdf'. addTitle t pdf = Inr pdf' \<and> pageInv pdf'
     \<and> map img_h (images pdf') = map img_h (images pdf) @ map displayHeight (case t of None \<Rightarrow> [] | Some el \<Rightarrow> [el])"
proof (cases t)
  case None
  then show ?thesis using inv by (simp add: addTitle_def)
next
  case (Some el)
  with r obtain p where el: "el = Renders p" by (cases el) auto
  from addCanvas_inv [OF inv, of p] obtain pdf1 where
    a: "addCanvasToPdf (Renders p) pdf = Inr pdf1" and i: "pageInv pdf1"
    and m: "map img_h (images pdf1) = map img_h (images pdf) @ [imgHeight p]"
    and y: "MARGIN + 2 \<le> yPos pdf1"
    by blast
  have "pageInv (pdf1\<lparr>yPos := fadd (yPos pdf1) 8\<rparr>)" using i y by (rule gap_inv)
  then show ?thesis using a m by (simp add: addTitle_def Some el)
qed

lemma addHeader_inv:
  assumes inv: "pageInv pdf" and r: "\<forall>e \<in> set_option t. rendered e"
  shows "\<exists>pdf'. addHeader t pdf = Inr pdf' \<and> pageInv pdf'
     \<and> map img_h (images pdf') = map img_h (images pdf) @ map displayHeight (case t of None \<Rightarrow> [] | Some el \<Rightarrow> [el])"
proof (cases t)
  case None
  then show ?thesis using inv by (simp add: addHeader_def)
next
  case (Some el)
  with r obtain p where el: "el = Renders p" by (cases el) auto
  from addCanvas_inv [OF inv, of p] show ?thesis by (auto simp: addHeader_def Some el)
qed

lemma addActivities_inv:
  assumes "pageInv pdf" and "\<forall>e \<in> set es. rendered e"
  shows "\<exists>pdf'. addActivities es pdf = Inr pdf' \<and> pageInv pdf'
     \<and> map img_h (images pdf') = map img_h (images pdf) @ map displayHeight es"
  using assms
proof (induction es arbitrary: pdf)
  case Nil
  then show ?case by simp
next
  case (Cons e es)
  then obtain p where e: "e = Renders p" by (cases e) auto
  from addCanvas_inv [OF Cons.prems(1), of p] obtain pdf1 where
    a: "addCanvasToPdf (Renders p) pdf = Inr pdf1" and i: "pageInv pdf1"
    and m: "map img_h (images pdf1) = map img_h (images pdf) @ [imgHeight p]"
    by blast
  from Cons.IH [OF i] Cons.prems(2) obtain pdf2 where
    "addActivities es pdf1 = Inr pdf2" "pageInv pdf2"
    "map img_h (images pdf2) = map img_h (images pdf1) @ map displayHeight es"
    by auto
  then show ?case using a m by (simp add: e)
qed

lemma addDays_inv:
  assumes "pageInv pdf" and "\<forall>d \<in> set ds. \<forall>e \<in> set (dayBlocks d). rendered e"
  shows "\<exists>pdf'. addDays ds pdf = Inr pdf' \<and> pageInv pdf'
     \<and> map img_h (images pdf') = map img_h (images pdf) @ map displayHeight (concat (map dayBlocks ds))"
  using assms
proof (induction ds arbitrary: pdf)
  case Nil
  then show ?case by simp
next
  case (Cons d ds)
  have rh: "\<forall>e \<in> set_option (day_header d). rendered e"
    and ra: "\<forall>e \<in> set (activity_items d). rendered e"
    using Cons.prems(2) by (auto simp: dayBlocks_def split: option.splits)
  from headerFit_inv [OF Cons.prems(1)] have i0: "pageInv (headerFit pdf)"
    and m0: "images (headerFit pdf) = images pdf" by simp_all
  from addHeader_inv [OF i0 rh] obtain pdf1 where
    a1: "addHeader (day_header d) (headerFit pdf) = Inr pdf1" and i1: "pageInv pdf1"
    and m1: "map img_h (images pdf1) = map img_h (images pdf)
        @ map displayHeight (case day_header d of None \<Rightarrow> [] | Some el \<Rightarrow> [el])"
    by (auto simp: m0)
  from addActivities_inv [OF i1 ra] obtain pdf2 where
    a2: "addActivities (activity_items d) pdf1 = Inr pdf2" and i2: "pageInv pdf2"
    and m2: "map img_h (images pdf2) = map img_h (images pdf1) @ map displayHeight (activity_items d)"
    by blast
  from Cons.IH [OF i2] Cons.prems(2) obtain pdf3 where
    "addDays ds pdf2 = Inr pdf3" "pageInv pdf3"
    "map img_h (images pdf3) = map img_h (images pdf2) @ map displayHeight (concat (map dayBlocks ds))"
    by auto
  then show ?case using a1 a2 m1 m2 by (simp add: dayBlocks_def [of d])
qed

lemma newPdf_inv: "pageInv newPdf"
  by (simp add: pageInv_def newPdf_def onPage_def)

text \<open>The nested loops of \<^verbatim>\<open>generatePdf\<close> and the flat rule place the same images.\<close>

lemma addCanvas_heightFit: "addCanvasToPdf (Renders p) pdf = Inr (heightFit (imgHeight p) pdf)"
  by (simp add: addCanvasToPdf_def heightFit_def startsNewPage_def addPage_def Let_def)

lemma headerFit_estimate: "headerFit pdf = headerEstimate pdf"
  by (simp add: headerFit_def headerEstimate_def addPage_def)

lemma addActivities_layout:
  "(case addActivities es pdf of Inl e \<Rightarrow> Inl e | Inr pdf' \<Rightarrow> layout rest pdf')
     = layout (map BlockItem es @ rest) pdf"
proof (induction es arbitrary: pdf)
  case Nil
  then show ?case by simp
next
  case (Cons e es)
  show ?case
  proof (cases e)
    case (Renders p)
    then show ?thesis using Cons.IH [of "heightFit (imgHeight p) pdf"]
      by (simp add: addCanvas_heightFit)
  next
    case RenderFails
    then show ?thesis by (simp add: addCanvasToPdf_def)
  qed
qed

lemma addHeader_layout:
  "(case addHeader t pdf of Inl e \<Rightarrow> Inl e | Inr pdf' \<Rightarrow> layout rest pdf')
     = layout (map BlockItem (case t of None \<Rightarrow> [] | Some el \<Rightarrow> [el]) @ rest) pdf"
proof (cases t)
  case None
  then show ?thesis by (simp add: addHeader_def)
next
  case (Some el)
  show ?thesis
  proof (cases el)
    case (Renders p)
    then show ?thesis using Some by (simp add: addHeader_def addCanvas_heightFit)
  next
    case RenderFails
    then show ?thesis using Some by (simp add: addHeader_def addCanvasToPdf_def)
  qed
qed

lemma addDays_layout:
  "(case addDays ds pdf of Inl e \<Rightarrow> Inl e | Inr pdf' \<Rightarrow> layout rest pdf')
     = layout (concat (map dayItems ds) @ rest) pdf"
proof (induction ds arbitrary: pdf)
  case Nil
  then show ?case by simp
next
  case (Cons d ds)
  let ?hd = "map BlockItem (case day_header d of None \<Rightarrow> [] | Some el \<Rightarrow> [el])"
  let ?tail = "concat (map dayItems ds) @ rest"
  have "(case addDays (d # ds) pdf of Inl e \<Rightarrow> Inl e | Inr pdf' \<Rightarrow> layout rest pdf')
      = (case addHeader (day_header d) (headerFit pdf) of Inl e \<Rightarrow> Inl e
         | Inr pdf1 \<Rightarrow>
             (case addActivities (activity_items d) pdf1 of Inl e \<Rightarrow> Inl e
              | Inr pdf2 \<Rightarrow>
                  (case addDays ds pdf2 of Inl e \<Rightarrow> Inl e | Inr pdf' \<Rightarrow> layout rest pdf')))"
    by (simp split: sum.splits)
  also have "\<dots> = (case addHeader (day_header d) (headerFit pdf) of Inl e \<Rightarrow> Inl e
         | Inr pdf1 \<Rightarrow> layout (map BlockItem (activity_items d) @ ?tail) pdf1)"
    by (simp only: Cons.IH addActivities_layout)
  also have "\<dots> = layout (?hd @ map BlockItem (activity_items d) @ ?tail) (headerFit pdf)"
    by (rule addHeader_layout)
  also have "\<dots> = layout (concat (map dayItems (d # ds)) @ rest) pdf"
    by (simp add: dayItems_def dayBlocks_def [of d] headerFit_estimate)
  finally show ?case .
qed

lemma paginate_layout: "paginate c = layout (items c) newPdf"
proof -
  have days: "addDays ds pdf = layout (concat (map dayItems ds)) pdf" for ds pdf
    using addDays_layout [where ds = ds and pdf = pdf and rest = "[]"]
    by (simp split: sum.splits)
  show ?thesis
  proof (cases "titleElement c")
    case None
    then show ?thesis by (simp add: paginate_def addTitle_def items_def days)
  next
    case (Some el)
    show ?thesis
    proof (cases el)
      case (Renders p)
      then show ?thesis
        using Some by (simp add: paginate_def addTitle_def items_def days addCanvas_heightFit)
    next
      case RenderFails
      then show ?thesis
        using Some by (simp add: paginate_def addTitle_def items_def addCanvasToPdf_def)
    qed
  qed
qed

lemmas pdf_eval = paginate_def addTitle_def addHeader_def headerFit_def addCanvasToPdf_def
  addPage_def imgHeight_def newPdf_def block_def A4_HEIGHT_def A4_WIDTH_def MARGIN_def
  CONTENT_WIDTH_def Let_def fadd_def fmul_def fdiv_def fl_numeral

lemma paginate_exContent: "paginate exContent
     = Inr \<lparr>pages = 2,
            images = [\<lparr>img_page = 1, img_x = 15, img_y = 15, img_w = 180, img_h = 40\<rparr>,
                      \<lparr>img_page = 1, img_x = 15, img_y = 65, img_w = 180, img_h = 40\<rparr>,
                      \<lparr>img_page = 2, img_x = 15, img_y = 15, img_w = 180, img_h = 250\<rparr>],
            texts = [], yPos = 267\<rparr>"
  by (simp add: pdf_eval exContent_def)

lemma paginate_exActivitiesOnly: "paginate exActivitiesOnly
     = Inr \<lparr>pages = 2,
            images = [\<lparr>img_page = 1, img_x = 15, img_y = 15, img_w = 180, img_h = 40\<rparr>,
                      \<lparr>img_page = 1, img_x = 15, img_y = 57, img_w = 180, img_h = 40\<rparr>,
                      \<lparr>img_page = 2, img_x = 15, img_y = 15, img_w = 180, img_h = 250\<rparr>],
            texts = [], yPos = 267\<rparr>"
  by (simp add: pdf_eval exActivitiesOnly_def)

lemma paginate_exTallActivity: "paginate exTallActivity
     = Inr \<lparr>pages = 3,
            images = [\<lparr>img_page = 1, img_x = 15, img_y = 15, img_w = 180, img_h = 40\<rparr>,
                      \<lparr>img_page = 1, img_x = 15, img_y = 65, img_w = 180, img_h = 40\<rparr>,
                      \<lparr>img_page = 2, img_x = 15, img_y = 15, img_w = 180, img_h = 300\<rparr>,
                      \<lparr>img_page = 3, img_x = 15, img_y = 15, img_w = 180, img_h = 10\<rparr>],
            texts = [], yPos = 27\<rparr>"
  by (simp add: pdf_eval exTallActivity_def)

lemma paginate_exAfterTall: "paginate exAfterTall
     = Inr \<lparr>pages = 1,
            images = [\<lparr>img_page = 1, img_x = 15, img_y = 15, img_w = 180, img_h = 250\<rparr>,
                      \<lparr>img_page = 1, img_x = 15, img_y = 267, img_w = 180, img_h = 5\<rparr>],
            texts = [], yPos = 274\<rparr>"
  by (simp add: pdf_eval exAfterTall_def)

text \<open>
  Two blocks of 27 x 38 and 108 x 7 pixels have the display heights 760 / 3 and 35 / 3.
  In exact arithmetic the second one ends at 15 + 760 / 3 + 2 + 35 / 3 = 282, which is
  not above 282. The doubles of the code are 270.33333333333337 for the cursor and
  11.666666666666666 for the height; their rounded sum is 282.00000000000006.
\<close>

lemma rounding_heights:
  "imgHeight \<lparr>width = 27, height = 38\<rparr> = 8913374262504107 / 2 ^ 45
   \<and> imgHeight \<lparr>width = 108, height = 7\<rparr> = 6567749456581973 / 2 ^ 49"
proof -
  have a: "fl 6840 = 6840" "fl 1260 = 1260" by (simp_all add: fl_numeral)
  have b: "fl (6840 / 27) = 8913374262504107 / 2 ^ 45" by (simp add: fl_eval)
  have c: "fl (1260 / 108) = 6567749456581973 / 2 ^ 49" by (simp add: fl_eval)
  show ?thesis
    using b c
    by (simp add: imgHeight_def fdiv_def fmul_def CONTENT_WIDTH_def A4_WIDTH_def MARGIN_def a)
qed

lemma rounding_cursor:
  "fadd MARGIN (fadd (8913374262504107 / 2 ^ 45) 2) = 4755754294007126 / 2 ^ 44
   \<and> fadd (4755754294007126 / 2 ^ 44) (6567749456581973 / 2 ^ 49) = 282 + 1 / 2 ^ 44"
proof -
  have a: "fl (8913374262504107 / 2 ^ 45 + 2) = 8983743006681771 / 2 ^ 45"
    by (simp add: fl_eval)
  have b: "fl (15 + 8983743006681771 / 2 ^ 45) = 4755754294007126 / 2 ^ 44"
    by (simp add: fl_eval)
  have c: "fl (4755754294007126 / 2 ^ 44 + 6567749456581973 / 2 ^ 49) = 282 + 1 / 2 ^ 44"
    by (simp add: fl_eval)
  show ?thesis
    unfolding fadd_def MARGIN_def a b c by simp
qed

lemma paginate_exRounding:
  "paginate exRounding
     = Inr \<lparr>pages = 2,
            images = [\<lparr>img_page = 1, img_x = 15, img_y = 15, img_w = 180,
                        img_h = 8913374262504107 / 2 ^ 45\<rparr>,
                      \<lparr>img_page = 2, img_x = 15, img_y = 15, img_w = 180,
                        img_h = 6567749456581973 / 2 ^ 49\<rparr>],
            texts = [],
            yPos = fadd 15 (fadd (6567749456581973 / 2 ^ 49) 2)\<rparr>"
proof -
  define h1 :: rat where "h1 = 8913374262504107 / 2 ^ 45"
  define h2 :: rat where "h2 = 6567749456581973 / 2 ^ 49"
  define y1 :: rat where "y1 = 4755754294007126 / 2 ^ 44"
  have hs: "imgHeight \<lparr>width = 27, height = 38\<rparr> = h1" "imgHeight \<lparr>width = 108, height = 7\<rparr> = h2"
    using rounding_heights by (simp_all add: h1_def h2_def)
  have ys: "fadd MARGIN (fadd h1 2) = y1" "A4_HEIGHT - MARGIN < fadd y1 h2" "MARGIN < y1"
    using rounding_cursor by (simp_all add: h1_def h2_def y1_def A4_HEIGHT_def MARGIN_def)
  have est: "\<not> A4_HEIGHT - MARGIN < fadd MARGIN 20"
    by (simp add: fadd_def MARGIN_def A4_HEIGHT_def fl_numeral)
  have "paginate exRounding
     = Inr \<lparr>pages = 2,
            images = [\<lparr>img_page = 1, img_x = MARGIN, img_y = MARGIN, img_w = CONTENT_WIDTH,
                        img_h = h1\<rparr>,
                      \<lparr>img_page = 2, img_x = MARGIN, img_y = MARGIN, img_w = CONTENT_WIDTH,
                        img_h = h2\<rparr>],
            texts = [],
            yPos = fadd MARGIN (fadd h2 2)\<rparr>"
    using est
    by (simp add: paginate_def addTitle_def addHeader_def headerFit_def addCanvasToPdf_def
        addPage_def newPdf_def Let_def exRounding_def hs ys)
  then show ?thesis
    by (simp add: h1_def h2_def MARGIN_def CONTENT_WIDTH_def A4_WIDTH_def)
qed

text \<open>
  C2, as the specification states it, fails for the header of a day. With a title of
  height 240 the cursor stands at 265 when the first day begins; the day's header of
  height 10 would fit (265 + 10 is not above 282), yet the estimate of 20 units for a
  header does not, so the header starts page 2.
\<close>

theorem page_break_counterexample:
  "addTitle (titleElement exTallTitle) newPdf
     = Inr \<lparr>pages = 1,
            images = [\<lparr>img_page = 1, img_x = 15, img_y = 15, img_w = 180, img_h = 240\<rparr>],
            texts = [], yPos = 265\<rparr>
   \<and> displayHeight (block 10) = 10
   \<and> \<not> (265 + displayHeight (block 10) > A4_HEIGHT - MARGIN)
   \<and> \<not> startsNewPage 265 (displayHeight (block 10))
   \<and> paginate exTallTitle
     = Inr \<lparr>pages = 2,
            images = [\<lparr>img_page = 1, img_x = 15, img_y = 15, img_w = 180, img_h = 240\<rparr>,
                      \<lparr>img_page = 2, img_x = 15, img_y = 15, img_w = 180, img_h = 10\<rparr>],
            texts = [], yPos = 27\<rparr>"
  by (simp add: pdf_eval exTallTitle_def startsNewPage_def)

text \<open>
  C2, amended: the export meets, in order, the title block, and for every day the start
  of the day followed by the day's blocks (its header if it has one, then its
  activities). The cursor starts at \<open>MARGIN\<close> = 15 on page 1, and every sum below is the
  double-precision sum of the code, \<open>fadd\<close>. Every block of display height \<open>h\<close> starts a
  new page, at cursor 15, exactly when \<open>fadd cursorY h > 282\<close> and \<open>cursorY > 15\<close>, and is
  otherwise placed at the cursor; after a block the cursor is \<open>fadd y (fadd h 2)\<close> for
  the \<open>y\<close> at which the block was placed, and after the title block 8 more. In
  addition, at the start of each day, and nowhere else, a new page is started whenever
  \<open>fadd cursorY 20 > 282\<close>; so the header of a day starts a new page exactly when
  \<open>fadd cursorY 20 > 282\<close> or the rule for blocks says so. The pagination of the code is
  the result of applying these rules to the whole sequence (\<open>layout\<close>), for every
  document whose canvases have a positive width and sizes below \<open>2 ^ 32\<close>, on which
  no division by zero and no overflow occurs. For blocks of heights 40, 40 and 250 (as
  title, header and activity, or as three activities) the first two are on page 1 and
  the third starts page 2 at 15; an activity of height 5 after one of height 250 stays
  on page 1, at 267, as no estimate precedes an activity.
\<close>

theorem page_break_rule:
  assumes "list_all canvasSized (blocks c)"
  shows "paginate c = layout (items c) newPdf
   \<and> A4_HEIGHT - MARGIN = 282 \<and> MARGIN = 15 \<and> pages newPdf = 1 \<and> yPos newPdf = MARGIN
   \<and> startsNewPage cursorY h = (fadd cursorY h > 282 \<and> cursorY > 15)
   \<and> pages (heightFit h pdf) = (if startsNewPage (yPos pdf) h then pages pdf + 1 else pages pdf)
   \<and> images (heightFit h pdf) = images pdf @
        [\<lparr>img_page = pages (heightFit h pdf), img_x = 15,
          img_y = (if startsNewPage (yPos pdf) h then 15 else yPos pdf),
          img_w = 180, img_h = h\<rparr>]
   \<and> yPos (heightFit h pdf)
        = fadd (if startsNewPage (yPos pdf) h then 15 else yPos pdf) (fadd h 2)
   \<and> headerEstimate pdf =
        (if fadd (yPos pdf) 20 > 282 then pdf\<lparr>pages := pages pdf + 1, yPos := 15\<rparr> else pdf)
   \<and> pages (heightFit h (headerEstimate pdf)) =
        (if fadd (yPos pdf) 20 > 282 \<or> startsNewPage (yPos pdf) h then pages pdf + 1
         else pages pdf)
   \<and> layout (TitleItem (Renders p) # rest) pdf
        = layout rest ((heightFit (imgHeight p) pdf)
            \<lparr>yPos := fadd (yPos (heightFit (imgHeight p) pdf)) 8\<rparr>)
   \<and> layout (DayStart # rest) pdf = layout rest (headerEstimate pdf)
   \<and> layout (BlockItem (Renders p) # rest) pdf = layout rest (heightFit (imgHeight p) pdf)
   \<and> layout [] pdf = Inr pdf
   \<and> map img_page (images (projr (paginate exContent))) = [1, 1, 2]
   \<and> map img_y (images (projr (paginate exContent))) = [15, 65, 15]
   \<and> map img_h (images (projr (paginate exContent))) = [40, 40, 250]
   \<and> map img_page (images (projr (paginate exActivitiesOnly))) = [1, 1, 2]
   \<and> map img_y (images (projr (paginate exActivitiesOnly))) = [15, 57, 15]
   \<and> map img_h (images (projr (paginate exActivitiesOnly))) = [40, 40, 250]
   \<and> map img_page (images (projr (paginate exAfterTall))) = [1, 1]
   \<and> map img_y (images (projr (paginate exAfterTall))) = [15, 267]
   \<and> map img_h (images (projr (paginate exAfterTall))) = [250, 5]"
proof -
  have cs: "A4_HEIGHT - MARGIN = 282" "MARGIN = 15" "pages newPdf = 1" "yPos newPdf = MARGIN"
    "CONTENT_WIDTH = 180"
    by (simp_all add: A4_HEIGHT_def A4_WIDTH_def CONTENT_WIDTH_def MARGIN_def newPdf_def)
  have rule: "startsNewPage cursorY h = (fadd cursorY h > 282 \<and> cursorY > 15)"
    by (simp add: startsNewPage_def A4_HEIGHT_def MARGIN_def)
  have fit: "pages (heightFit h pdf) = (if startsNewPage (yPos pdf) h then pages pdf + 1 else pages pdf)"
    "images (heightFit h pdf) = images pdf @
        [\<lparr>img_page = pages (heightFit h pdf), img_x = 15,
          img_y = (if startsNewPage (yPos pdf) h then 15 else yPos pdf),
          img_w = 180, img_h = h\<rparr>]"
    "yPos (heightFit h pdf)
        = fadd (if startsNewPage (yPos pdf) h then 15 else yPos pdf) (fadd h 2)"
    by (simp_all add: heightFit_def Let_def cs)
  have est: "headerEstimate pdf =
        (if fadd (yPos pdf) 20 > 282 then pdf\<lparr>pages := pages pdf + 1, yPos := 15\<rparr> else pdf)"
    by (simp add: headerEstimate_def A4_HEIGHT_def MARGIN_def)
  have hdr: "pages (heightFit h (headerEstimate pdf)) =
        (if fadd (yPos pdf) 20 > 282 \<or> startsNewPage (yPos pdf) h then pages pdf + 1
         else pages pdf)"
    by (simp add: heightFit_def Let_def headerEstimate_def startsNewPage_def A4_HEIGHT_def
        MARGIN_def)
  have ex: "map img_page (images (projr (paginate exContent))) = [1, 1, 2]"
    "map img_y (images (projr (paginate exContent))) = [15, 65, 15]"
    "map img_h (images (projr (paginate exContent))) = [40, 40, 250]"
    "map img_page (images (projr (paginate exActivitiesOnly))) = [1, 1, 2]"
    "map img_y (images (projr (paginate exActivitiesOnly))) = [15, 57, 15]"
    "map img_h (images (projr (paginate exActivitiesOnly))) = [40, 40, 250]"
    "map img_page (images (projr (paginate exAfterTall))) = [1, 1]"
    "map img_y (images (projr (paginate exAfterTall))) = [15, 267]"
    "map img_h (images (projr (paginate exAfterTall))) = [250, 5]"
    by (simp_all add: paginate_exContent paginate_exActivitiesOnly paginate_exAfterTall)
  show ?thesis
    using paginate_layout [of c] cs(1-4) rule fit est hdr ex by simp
qed

text \<open>
  At the two blocks of 27 x 38 and 108 x 7 pixels the rule, with the sums of the code,
  gives what the code gives: the second block starts page 2, although the exact sum
  15 + 760 / 3 + 2 + 35 / 3 is 282.
\<close>

theorem page_break_rule_witness:
  "list_all canvasSized (blocks exRounding)
   \<and> layout (items exRounding) newPdf = paginate exRounding
   \<and> map img_page (images (projr (layout (items exRounding) newPdf))) = [1, 2]
   \<and> map img_y (images (projr (layout (items exRounding) newPdf))) = [15, 15]
   \<and> (15 + 760 / 3 + 2 + 35 / 3 :: rat) = 282"
proof -
  have sized: "list_all canvasSized (blocks exRounding)"
    by (simp add: exRounding_def blocks_def dayBlocks_def)
  from page_break_rule [OF sized]
  have "paginate exRounding = layout (items exRounding) newPdf" by (rule conjunct1)
  then have eq: "layout (items exRounding) newPdf = paginate exRounding" by simp
  show ?thesis using sized by (simp add: eq paginate_exRounding)
qed

text \<open>
  C7: when every block rasterises (to an image of positive width), the pagination
  succeeds and places exactly one image per block, in order and with the block's full
  display height; no block is split, rejected or cut. Every image is on an existing
  page, at the left margin and at or below the top margin. An image taller than the
  content height (267) starts at the top margin and is the only image on its page.
\<close>

theorem blocks_never_split:
  assumes "\<forall>e \<in> set (blocks c). rendered e"
  shows "\<exists>pdf. paginate c = Inr pdf
    \<and> map img_h (images pdf) = map displayHeight (blocks c)
    \<and> (\<forall>q \<in> set (images pdf).
          img_x q = MARGIN \<and> img_w q = CONTENT_WIDTH \<and> 1 \<le> img_page q
          \<and> img_page q \<le> pages pdf \<and> MARGIN \<le> img_y q)
    \<and> (\<forall>q \<in> set (images pdf). A4_HEIGHT - MARGIN * 2 < img_h q \<longrightarrow>
          img_y q = MARGIN \<and> onPage (img_page q) (images pdf) = [q])"
proof -
  have rt: "\<forall>e \<in> set_option (titleElement c). rendered e"
    and rd: "\<forall>d \<in> set (dayElements c). \<forall>e \<in> set (dayBlocks d). rendered e"
    using assms by (auto simp: blocks_def split: option.splits)
  from addTitle_inv [OF newPdf_inv rt] obtain pdf1 where
    a1: "addTitle (titleElement c) newPdf = Inr pdf1" and i1: "pageInv pdf1"
    and m1: "map img_h (images pdf1)
        = map displayHeight (case titleElement c of None \<Rightarrow> [] | Some el \<Rightarrow> [el])"
    by (auto simp: newPdf_def)
  from addDays_inv [OF i1 rd] obtain pdf2 where
    a2: "addDays (dayElements c) pdf1 = Inr pdf2" and i2: "pageInv pdf2"
    and m2: "map img_h (images pdf2) = map img_h (images pdf1)
        @ map displayHeight (concat (map dayBlocks (dayElements c)))"
    by blast
  have "paginate c = Inr pdf2" using a1 a2 by (simp add: paginate_def)
  moreover have "map img_h (images pdf2) = map displayHeight (blocks c)"
    using m1 m2 by (simp add: blocks_def)
  ultimately show ?thesis using i2 by (auto simp: pageInv_def)
qed

theorem blocks_never_split_witness:
  "list_all rendered (blocks exTallActivity)
   \<and> map displayHeight (blocks exTallActivity) = [40, 40, 300, 10]
   \<and> (\<exists>pdf. paginate exTallActivity = Inr pdf
        \<and> map img_h (images pdf) = [40, 40, 300, 10]
        \<and> map img_page (images pdf) = [1, 1, 2, 3]
        \<and> map img_y (images pdf) = [15, 65, 15, 15]
        \<and> onPage 2 (images pdf)
            = [\<lparr>img_page = 2, img_x = 15, img_y = 15, img_w = 180, img_h = 300\<rparr>])"
proof -
  have r: "\<forall>e \<in> set (blocks exTallActivity). rendered e"
    by (simp add: blocks_def dayBlocks_def exTallActivity_def block_def)
  have d: "map displayHeight (blocks exTallActivity) = [40, 40, 300, 10]"
    by (simp add: blocks_def dayBlocks_def exTallActivity_def block_def imgHeight_def
        CONTENT_WIDTH_def A4_WIDTH_def MARGIN_def fmul_def fdiv_def fl_numeral)
  from blocks_never_split [OF r] obtain pdf where
    p: "paginate exTallActivity = Inr pdf"
    and h: "map img_h (images pdf) = map displayHeight (blocks exTallActivity)"
    and alone: "\<forall>q \<in> set (images pdf). A4_HEIGHT - MARGIN * 2 < img_h q \<longrightarrow>
          img_y q = MARGIN \<and> onPage (img_page q) (images pdf) = [q]"
    by blast
  from p have imgs: "images pdf =
      [\<lparr>img_page = 1, img_x = 15, img_y = 15, img_w = 180, img_h = 40\<rparr>,
       \<lparr>img_page = 1, img_x = 15, img_y = 65, img_w = 180, img_h = 40\<rparr>,
       \<lparr>img_page = 2, img_x = 15, img_y = 15, img_w = 180, img_h = 300\<rparr>,
       \<lparr>img_page = 3, img_x = 15, img_y = 15, img_w = 180, img_h = 10\<rparr>]"
    by (auto simp: paginate_exTallActivity)
  from alone have "onPage 2 (images pdf)
      = [\<lparr>img_page = 2, img_x = 15, img_y = 15, img_w = 180, img_h = 300\<rparr>]"
    by (simp add: imgs A4_HEIGHT_def MARGIN_def)
  with p h d r show ?thesis by (simp add: imgs list_all_iff)
qed

end
